theory Spec2Isabelle
  imports Main "HOL-Library.Word"
begin

section \<open>Data model of the engine (src/engine/Engine.cpp)\<close>

text \<open>
  Objects (modules, cables, parameter handles) live in a store indexed by addresses;
  a C++ pointer is an optional address, \<open>None\<close> being \<open>NULL\<close>.  The C++ type \<open>int\<close>
  is a 32-bit word read as a signed number.  The type \<open>'f\<close> stands for \<open>float\<close>: its
  arithmetic is passed in as a record of operations, so nothing is assumed about
  rounding or about the comparison of NaN.  The type \<open>'msg\<close> is the opaque payload of
  an expander message buffer.
\<close>

type_synonym addr = nat
type_synonym int32 = "32 word"

datatype error = AssertFailed | InvalidAccess

record 'f FloatOps =
  fadd :: "'f \<Rightarrow> 'f \<Rightarrow> 'f"
  fsub :: "'f \<Rightarrow> 'f \<Rightarrow> 'f"
  fmul :: "'f \<Rightarrow> 'f \<Rightarrow> 'f"
  fdiv :: "'f \<Rightarrow> 'f \<Rightarrow> 'f"
  feq :: "'f \<Rightarrow> 'f \<Rightarrow> bool"
  fzero :: 'f
  ftwo :: 'f
  fsixty :: 'f

record 'f Param =
  pvalue :: 'f

record Port =
  channels :: int
  active :: bool

record 'msg Expander =
  e_moduleId :: int32
  e_module :: "addr option"
  producerMessage :: 'msg
  consumerMessage :: 'msg
  messageFlipRequested :: bool

record ('f, 'msg) Module =
  m_id :: int32
  params :: "'f Param list"
  inputs :: "Port list"
  outputs :: "Port list"
  bypass :: bool
  cpuTime :: 'f
  leftExpander :: "'msg Expander"
  rightExpander :: "'msg Expander"

record Cable =
  c_id :: int32
  outputModule :: "addr option"
  outputId :: int32
  inputModule :: "addr option"
  inputId :: int32

record ParamHandle =
  h_moduleId :: int32
  h_paramId :: int32
  h_module :: "addr option"

text \<open>\<open>Engine::Internal\<close> together with the store of the objects it points to.\<close>

record ('f, 'msg) Engine =
  modules :: "addr list"
  cables :: "addr list"
  paramHandles :: "addr list"
  sampleRate :: 'f
  sampleTime :: 'f
  nextModuleId :: int32
  nextCableId :: int32
  smoothModule :: "addr option"
  smoothParamId :: int32
  smoothValue :: 'f
  moduleAt :: "addr \<Rightarrow> ('f, 'msg) Module"
  cableAt :: "addr \<Rightarrow> Cable"
  handleAt :: "addr \<Rightarrow> ParamHandle"

text \<open>The collaborators the step kernel calls and the engine does not define:
  \<open>Module::process\<close>, the port-light animation \<open>Port::process\<close>, \<open>Cable::step\<close>,
  the setting \<open>settings::cpuMeter\<close> and the clock reading of one \<open>process\<close> call.\<close>

record ('f, 'msg) Hooks =
  process :: "addr \<Rightarrow> ('f, 'msg) Engine \<Rightarrow> ('f, 'msg) Engine"
  portsProcess :: "addr \<Rightarrow> ('f, 'msg) Engine \<Rightarrow> ('f, 'msg) Engine"
  cableStep :: "addr \<Rightarrow> ('f, 'msg) Engine \<Rightarrow> ('f, 'msg) Engine"
  cpuMeter :: bool
  elapsed :: "addr \<Rightarrow> ('f, 'msg) Engine \<Rightarrow> 'f"

subsection \<open>Indexing a \<open>std::vector\<close> with an \<open>int\<close>\<close>

definition in_range :: "int32 \<Rightarrow> 'a list \<Rightarrow> bool" where
  "in_range i xs \<longleftrightarrow> 0 \<le> sint i \<and> sint i < int (length xs)"

definition idx :: "int32 \<Rightarrow> nat" where
  "idx i = nat (sint i)"

definition updModule ::
  "addr \<Rightarrow> (('f, 'msg) Module \<Rightarrow> ('f, 'msg) Module) \<Rightarrow> ('f, 'msg) Engine \<Rightarrow> ('f, 'msg) Engine" where
  "updModule a f s = s\<lparr>moduleAt := (moduleAt s)(a := f (moduleAt s a))\<rparr>"

definition updCable :: "addr \<Rightarrow> (Cable \<Rightarrow> Cable) \<Rightarrow> ('f, 'msg) Engine \<Rightarrow> ('f, 'msg) Engine" where
  "updCable a f s = s\<lparr>cableAt := (cableAt s)(a := f (cableAt s a))\<rparr>"

definition updHandle ::
  "addr \<Rightarrow> (ParamHandle \<Rightarrow> ParamHandle) \<Rightarrow> ('f, 'msg) Engine \<Rightarrow> ('f, 'msg) Engine" where
  "updHandle a f s = s\<lparr>handleAt := (handleAt s)(a := f (handleAt s a))\<rparr>"

text \<open>Modelled from the spec: \<open>Param::setValue\<close> is declared outside the sources at hand;
  the spec's step kernel says "set \<open>param.value = t\<close>".\<close>

definition setValue :: "'f \<Rightarrow> 'f Param \<Rightarrow> 'f Param" where
  "setValue v p = p\<lparr>pvalue := v\<rparr>"

definition setParamValue :: "nat \<Rightarrow> 'f \<Rightarrow> ('f, 'msg) Module \<Rightarrow> ('f, 'msg) Module" where
  "setParamValue i v m = m\<lparr>params := (params m)[i := setValue v (params m ! i)]\<rparr>"

section \<open>The step kernel\<close>

text \<open>Lines 274--293 of \<open>Engine_step\<close>: parameter smoothing.\<close>

definition smoothNewValue :: "'f FloatOps \<Rightarrow> 'f \<Rightarrow> 'f \<Rightarrow> 'f \<Rightarrow> 'f" where
  "smoothNewValue F v t dt = fadd F v (fmul F (fmul F (fsub F t v) (fsixty F)) dt)"

definition Engine_step_smooth ::
  "'f FloatOps \<Rightarrow> ('f, 'msg) Engine \<Rightarrow> error + ('f, 'msg) Engine" where
  "Engine_step_smooth F s =
     (case smoothModule s of
        None \<Rightarrow> Inr s
      | Some a \<Rightarrow>
          if \<not> in_range (smoothParamId s) (params (moduleAt s a)) then Inl InvalidAccess
          else
            let i = idx (smoothParamId s);
                v = pvalue (params (moduleAt s a) ! i);
                newValue = smoothNewValue F v (smoothValue s) (sampleTime s)
            in if feq F v newValue
               then Inr ((updModule a (setParamValue i (smoothValue s)) s)
                          \<lparr>smoothModule := None, smoothParamId := 0\<rparr>)
               else Inr (updModule a (setParamValue i newValue) s))"

text \<open>\<open>Engine_stepModules\<close> as run by the engine thread alone (\<open>threadCount = 1\<close>):
  the shared index then walks the module list in order.\<close>

definition stepModule ::
  "'f FloatOps \<Rightarrow> ('f, 'msg) Hooks \<Rightarrow> 'f \<Rightarrow> addr \<Rightarrow> ('f, 'msg) Engine \<Rightarrow> ('f, 'msg) Engine" where
  "stepModule F H dt a s =
     (let s1 =
        (if \<not> bypass (moduleAt s a) then
           (if cpuMeter H then
              (let t = elapsed H a s; s' = process H a s in
               updModule a (\<lambda>m. m\<lparr>cpuTime :=
                 fadd F (cpuTime m) (fdiv F (fmul F (fsub F t (cpuTime m)) dt) (ftwo F))\<rparr>) s')
            else process H a s)
         else s)
      in portsProcess H a s1)"

definition Engine_stepModules ::
  "'f FloatOps \<Rightarrow> ('f, 'msg) Hooks \<Rightarrow> ('f, 'msg) Engine \<Rightarrow> ('f, 'msg) Engine" where
  "Engine_stepModules F H s = fold (stepModule F H (sampleTime s)) (modules s) s"

definition stepCables :: "('f, 'msg) Hooks \<Rightarrow> ('f, 'msg) Engine \<Rightarrow> ('f, 'msg) Engine" where
  "stepCables H s = fold (cableStep H) (cables s) s"

text \<open>Lines 306--316: the message flip of one expander, of one module, of all modules.\<close>

definition flipExpander :: "'msg Expander \<Rightarrow> 'msg Expander" where
  "flipExpander e =
     (if messageFlipRequested e
      then e\<lparr>producerMessage := consumerMessage e, consumerMessage := producerMessage e,
              messageFlipRequested := False\<rparr>
      else e)"

definition flipModule :: "('f, 'msg) Module \<Rightarrow> ('f, 'msg) Module" where
  "flipModule m = m\<lparr>leftExpander := flipExpander (leftExpander m),
                     rightExpander := flipExpander (rightExpander m)\<rparr>"

definition flipMessages :: "('f, 'msg) Engine \<Rightarrow> ('f, 'msg) Engine" where
  "flipMessages s = fold (\<lambda>a. updModule a flipModule) (modules s) s"

text \<open>The state in which the flip loop starts: smoothing, module stepping and cable
  stepping are done.\<close>

definition Engine_step_pre_flip ::
  "'f FloatOps \<Rightarrow> ('f, 'msg) Hooks \<Rightarrow> ('f, 'msg) Engine \<Rightarrow> error + ('f, 'msg) Engine" where
  "Engine_step_pre_flip F H s =
     (case Engine_step_smooth F s of
        Inl e \<Rightarrow> Inl e
      | Inr s1 \<Rightarrow> Inr (stepCables H (Engine_stepModules F H s1)))"

definition Engine_step ::
  "'f FloatOps \<Rightarrow> ('f, 'msg) Hooks \<Rightarrow> ('f, 'msg) Engine \<Rightarrow> error + ('f, 'msg) Engine" where
  "Engine_step F H s =
     (case Engine_step_pre_flip F H s of
        Inl e \<Rightarrow> Inl e
      | Inr s2 \<Rightarrow> Inr (flipMessages s2))"

section \<open>The mutation API\<close>

text \<open>An \<open>assert\<close> that fails aborts: the operation returns \<open>Inl AssertFailed\<close>.  A
  \<open>NULL\<close> dereference or an index outside a vector is \<open>Inl InvalidAccess\<close>.  The event
  handlers \<open>Module::onAdd\<close> and \<open>Module::onRemove\<close> belong to the module and are taken
  to leave the engine's state as it is.\<close>

fun forEach :: "('a \<Rightarrow> 's \<Rightarrow> error + 's) \<Rightarrow> 'a list \<Rightarrow> 's \<Rightarrow> error + 's" where
  "forEach f [] s = Inr s"
| "forEach f (x # xs) s = (case f x s of Inl e \<Rightarrow> Inl e | Inr s' \<Rightarrow> forEach f xs s')"

subsection \<open>Modules\<close>

definition bindHandle :: "addr \<Rightarrow> addr \<Rightarrow> ('f, 'msg) Engine \<Rightarrow> ('f, 'msg) Engine" where
  "bindHandle a h s =
     (if h_moduleId (handleAt s h) = m_id (moduleAt s a)
      then updHandle h (\<lambda>p. p\<lparr>h_module := Some a\<rparr>) s else s)"

definition addModule :: "addr option \<Rightarrow> ('f, 'msg) Engine \<Rightarrow> error + ('f, 'msg) Engine" where
  "addModule module s =
     (case module of
        None \<Rightarrow> Inl AssertFailed
      | Some a \<Rightarrow>
          if a \<in> set (modules s) then Inl AssertFailed
          else if sint (m_id (moduleAt s a)) < 0 then
            (let s1 = (updModule a (\<lambda>m. m\<lparr>m_id := nextModuleId s\<rparr>) s)
                        \<lparr>nextModuleId := nextModuleId s + 1\<rparr>;
                 s2 = s1\<lparr>modules := modules s1 @ [a]\<rparr>
             in Inr (fold (bindHandle a) (paramHandles s2) s2))
          else if \<exists>b \<in> set (modules s). m_id (moduleAt s a) = m_id (moduleAt s b)
            then Inl AssertFailed
          else
            (let s1 = (if sint (nextModuleId s) \<le> sint (m_id (moduleAt s a))
                       then s\<lparr>nextModuleId := m_id (moduleAt s a) + 1\<rparr> else s);
                 s2 = s1\<lparr>modules := modules s1 @ [a]\<rparr>
             in Inr (fold (bindHandle a) (paramHandles s2) s2)))"

definition unbindHandle :: "addr \<Rightarrow> addr \<Rightarrow> ('f, 'msg) Engine \<Rightarrow> ('f, 'msg) Engine" where
  "unbindHandle a h s =
     (if h_moduleId (handleAt s h) = m_id (moduleAt s a)
      then updHandle h (\<lambda>p. p\<lparr>h_module := None\<rparr>) s else s)"

definition clearExpander :: "addr \<Rightarrow> 'msg Expander \<Rightarrow> 'msg Expander" where
  "clearExpander a e =
     (if e_module e = Some a then e\<lparr>e_moduleId := - 1, e_module := None\<rparr> else e)"

definition clearExpanders :: "addr \<Rightarrow> ('f, 'msg) Module \<Rightarrow> ('f, 'msg) Module" where
  "clearExpanders a m = m\<lparr>leftExpander := clearExpander a (leftExpander m),
                           rightExpander := clearExpander a (rightExpander m)\<rparr>"

definition removeModule :: "addr option \<Rightarrow> ('f, 'msg) Engine \<Rightarrow> error + ('f, 'msg) Engine" where
  "removeModule module s =
     (case module of
        None \<Rightarrow> Inl AssertFailed
      | Some a \<Rightarrow>
          if a \<notin> set (modules s) then Inl AssertFailed
          else
            let s1 = (if Some a = smoothModule s then s\<lparr>smoothModule := None\<rparr> else s)
            in if \<exists>c \<in> set (cables s1). outputModule (cableAt s1 c) = Some a
                                        \<or> inputModule (cableAt s1 c) = Some a
               then Inl AssertFailed
               else
                 let s2 = fold (unbindHandle a) (paramHandles s1) s1;
                     s3 = fold (\<lambda>b. updModule b (clearExpanders a)) (modules s2) s2
                 in Inr (s3\<lparr>modules := remove1 a (modules s3)\<rparr>))"

text \<open>Modelled from the spec: \<open>Port::setChannels\<close> is declared outside the sources at
  hand; the spec's \<open>bypassModule\<close> says "set every output's channel count to 0" and
  "set every output's channels to 1".  Voltages are not modelled.\<close>

definition setChannels :: "int \<Rightarrow> Port \<Rightarrow> Port" where
  "setChannels n p = p\<lparr>channels := n\<rparr>"

definition bypassModule ::
  "'f FloatOps \<Rightarrow> addr option \<Rightarrow> bool \<Rightarrow> ('f, 'msg) Engine \<Rightarrow> error + ('f, 'msg) Engine" where
  "bypassModule F module b s =
     (case module of
        None \<Rightarrow> Inl AssertFailed
      | Some a \<Rightarrow>
          let s1 = (if b
                    then updModule a (\<lambda>m. m\<lparr>outputs := map (setChannels 0) (outputs m),
                                              cpuTime := fzero F\<rparr>) s
                    else updModule a (\<lambda>m. m\<lparr>outputs := map (setChannels 1) (outputs m)\<rparr>) s)
          in Inr (updModule a (\<lambda>m. m\<lparr>bypass := b\<rparr>) s1))"

subsection \<open>Cables\<close>

definition deactivatePorts :: "('f, 'msg) Module \<Rightarrow> ('f, 'msg) Module" where
  "deactivatePorts m = m\<lparr>inputs := map (\<lambda>p. p\<lparr>active := False\<rparr>) (inputs m),
                          outputs := map (\<lambda>p. p\<lparr>active := False\<rparr>) (outputs m)\<rparr>"

definition activateOutput :: "addr \<Rightarrow> ('f, 'msg) Engine \<Rightarrow> error + ('f, 'msg) Engine" where
  "activateOutput c s =
     (case outputModule (cableAt s c) of
        None \<Rightarrow> Inl InvalidAccess
      | Some om \<Rightarrow>
          if \<not> in_range (outputId (cableAt s c)) (outputs (moduleAt s om)) then Inl InvalidAccess
          else Inr (updModule om (\<lambda>m. m\<lparr>outputs := (outputs m)[idx (outputId (cableAt s c)) :=
                     (outputs m ! idx (outputId (cableAt s c)))\<lparr>active := True\<rparr>]\<rparr>) s))"

definition activateInput :: "addr \<Rightarrow> ('f, 'msg) Engine \<Rightarrow> error + ('f, 'msg) Engine" where
  "activateInput c s =
     (case inputModule (cableAt s c) of
        None \<Rightarrow> Inl InvalidAccess
      | Some im \<Rightarrow>
          if \<not> in_range (inputId (cableAt s c)) (inputs (moduleAt s im)) then Inl InvalidAccess
          else Inr (updModule im (\<lambda>m. m\<lparr>inputs := (inputs m)[idx (inputId (cableAt s c)) :=
                     (inputs m ! idx (inputId (cableAt s c)))\<lparr>active := True\<rparr>]\<rparr>) s))"

definition activateCable :: "addr \<Rightarrow> ('f, 'msg) Engine \<Rightarrow> error + ('f, 'msg) Engine" where
  "activateCable c s =
     (case activateOutput c s of Inl e \<Rightarrow> Inl e | Inr s' \<Rightarrow> activateInput c s')"

definition Engine_updateConnected :: "('f, 'msg) Engine \<Rightarrow> error + ('f, 'msg) Engine" where
  "Engine_updateConnected s =
     forEach activateCable (cables s)
       (fold (\<lambda>a. updModule a deactivatePorts) (modules s) s)"

definition sameInput :: "Cable \<Rightarrow> Cable \<Rightarrow> bool" where
  "sameInput c2 c \<longleftrightarrow> inputModule c2 = inputModule c \<and> inputId c2 = inputId c"

definition addCable :: "addr option \<Rightarrow> ('f, 'msg) Engine \<Rightarrow> error + ('f, 'msg) Engine" where
  "addCable cable s =
     (case cable of
        None \<Rightarrow> Inl AssertFailed
      | Some c \<Rightarrow>
          if outputModule (cableAt s c) = None then Inl AssertFailed
          else if inputModule (cableAt s c) = None then Inl AssertFailed
          else if \<exists>c2 \<in> set (cables s). c2 = c \<or> sameInput (cableAt s c2) (cableAt s c)
            then Inl AssertFailed
          else if sint (c_id (cableAt s c)) < 0 then
            (let s1 = (updCable c (\<lambda>k. k\<lparr>c_id := nextCableId s\<rparr>) s)
                        \<lparr>nextCableId := nextCableId s + 1\<rparr>
             in Engine_updateConnected (s1\<lparr>cables := cables s1 @ [c]\<rparr>))
          else if \<exists>w \<in> set (cables s). c_id (cableAt s c) = c_id (cableAt s w)
            then Inl AssertFailed
          else
            (let s1 = (if sint (nextCableId s) \<le> sint (c_id (cableAt s c))
                       then s\<lparr>nextCableId := c_id (cableAt s c) + 1\<rparr> else s)
             in Engine_updateConnected (s1\<lparr>cables := cables s1 @ [c]\<rparr>)))"

subsection \<open>Parameters and smoothing\<close>

definition setParam ::
  "addr option \<Rightarrow> int32 \<Rightarrow> 'f \<Rightarrow> ('f, 'msg) Engine \<Rightarrow> error + ('f, 'msg) Engine" where
  "setParam module paramId v s =
     (let s1 = (if smoothModule s = module \<and> smoothParamId s = paramId
                then s\<lparr>smoothModule := None, smoothParamId := 0\<rparr> else s)
      in case module of
           None \<Rightarrow> Inl InvalidAccess
         | Some a \<Rightarrow>
             if \<not> in_range paramId (params (moduleAt s1 a)) then Inl InvalidAccess
             else Inr (updModule a (\<lambda>m. m\<lparr>params := (params m)[idx paramId :=
                        (params m ! idx paramId)\<lparr>pvalue := v\<rparr>]\<rparr>) s1))"

definition getParam :: "addr option \<Rightarrow> int32 \<Rightarrow> ('f, 'msg) Engine \<Rightarrow> error + 'f" where
  "getParam module paramId s =
     (case module of
        None \<Rightarrow> Inl InvalidAccess
      | Some a \<Rightarrow>
          if \<not> in_range paramId (params (moduleAt s a)) then Inl InvalidAccess
          else Inr (pvalue (params (moduleAt s a) ! idx paramId)))"

text \<open>\<open>setSmoothParam\<close> performs up to four writes.  \<open>setSmoothParam_writes\<close> lists the
  state after each of them, in program order; \<open>setSmoothParam\<close> is the last of them.\<close>

definition snapSmooth :: "addr option \<Rightarrow> int32 \<Rightarrow> ('f, 'msg) Engine \<Rightarrow> error + ('f, 'msg) Engine list" where
  "snapSmooth module paramId s =
     (case smoothModule s of
        None \<Rightarrow> Inr []
      | Some a0 \<Rightarrow>
          if smoothModule s = module \<and> smoothParamId s = paramId then Inr []
          else if \<not> in_range (smoothParamId s) (params (moduleAt s a0)) then Inl InvalidAccess
          else Inr [updModule a0 (\<lambda>m. m\<lparr>params := (params m)[idx (smoothParamId s) :=
                      (params m ! idx (smoothParamId s))\<lparr>pvalue := smoothValue s\<rparr>]\<rparr>) s])"

definition setSmoothParam_writes ::
  "addr option \<Rightarrow> int32 \<Rightarrow> 'f \<Rightarrow> ('f, 'msg) Engine \<Rightarrow> error + ('f, 'msg) Engine list" where
  "setSmoothParam_writes module paramId v s =
     (case snapSmooth module paramId s of
        Inl e \<Rightarrow> Inl e
      | Inr ws \<Rightarrow>
          let s1 = last (s # ws);
              s2 = s1\<lparr>smoothParamId := paramId\<rparr>;
              s3 = s2\<lparr>smoothValue := v\<rparr>;
              s4 = s3\<lparr>smoothModule := module\<rparr>
          in Inr (ws @ [s2, s3, s4]))"

definition setSmoothParam ::
  "addr option \<Rightarrow> int32 \<Rightarrow> 'f \<Rightarrow> ('f, 'msg) Engine \<Rightarrow> error + ('f, 'msg) Engine" where
  "setSmoothParam module paramId v s =
     (case setSmoothParam_writes module paramId v s of
        Inl e \<Rightarrow> Inl e
      | Inr ws \<Rightarrow> Inr (last ws))"

definition getSmoothParam :: "addr option \<Rightarrow> int32 \<Rightarrow> ('f, 'msg) Engine \<Rightarrow> error + 'f" where
  "getSmoothParam module paramId s =
     (if smoothModule s = module \<and> smoothParamId s = paramId then Inr (smoothValue s)
      else getParam module paramId s)"

subsection \<open>Parameter handles\<close>

definition addParamHandle :: "addr \<Rightarrow> ('f, 'msg) Engine \<Rightarrow> error + ('f, 'msg) Engine" where
  "addParamHandle h s =
     (if h \<in> set (paramHandles s) then Inl AssertFailed
      else if \<not> sint (h_moduleId (handleAt s h)) < 0 then Inl AssertFailed
      else Inr (s\<lparr>paramHandles := paramHandles s @ [h]\<rparr>))"

definition removeParamHandle :: "addr \<Rightarrow> ('f, 'msg) Engine \<Rightarrow> error + ('f, 'msg) Engine" where
  "removeParamHandle h s =
     (let s1 = updHandle h (\<lambda>p. p\<lparr>h_module := None\<rparr>) s
      in if h \<notin> set (paramHandles s1) then Inl AssertFailed
         else Inr (s1\<lparr>paramHandles := remove1 h (paramHandles s1)\<rparr>))"

text \<open>Modelled from the spec: \<open>ParamHandle::reset\<close> is declared outside the sources at
  hand; the spec says "\<open>reset()\<close> clears its target", and a handle without a target
  has \<open>moduleId = -1\<close>, \<open>paramId = 0\<close> and no cached module.\<close>

definition reset :: "ParamHandle \<Rightarrow> ParamHandle" where
  "reset p = p\<lparr>h_moduleId := - 1, h_paramId := 0, h_module := None\<rparr>"

definition resetConflict ::
  "addr \<Rightarrow> int32 \<Rightarrow> int32 \<Rightarrow> bool \<Rightarrow> addr \<Rightarrow> ('f, 'msg) Engine \<Rightarrow> ('f, 'msg) Engine" where
  "resetConflict h moduleId paramId overwrite p s =
     (if p \<noteq> h \<and> h_moduleId (handleAt s p) = moduleId \<and> h_paramId (handleAt s p) = paramId
      then (if overwrite then updHandle p reset s else updHandle h reset s)
      else s)"

definition rebind :: "addr \<Rightarrow> addr \<Rightarrow> ('f, 'msg) Engine \<Rightarrow> ('f, 'msg) Engine" where
  "rebind h a s =
     (if m_id (moduleAt s a) = h_moduleId (handleAt s h)
      then updHandle h (\<lambda>p. p\<lparr>h_module := Some a\<rparr>) s else s)"

definition updateParamHandle ::
  "addr \<Rightarrow> int32 \<Rightarrow> int32 \<Rightarrow> bool \<Rightarrow> ('f, 'msg) Engine \<Rightarrow> ('f, 'msg) Engine" where
  "updateParamHandle h moduleId paramId overwrite s =
     (let s1 = updHandle h (\<lambda>p. p\<lparr>h_moduleId := moduleId, h_paramId := paramId,
                                   h_module := None\<rparr>) s
      in if h \<in> set (paramHandles s1) \<and> 0 \<le> sint (h_moduleId (handleAt s1 h))
         then
           (let s2 = fold (resetConflict h moduleId paramId overwrite) (paramHandles s1) s1
            in fold (rebind h) (modules s2) s2)
         else s1)"

section \<open>The hybrid barrier\<close>

text \<open>\<open>HybridBarrier::wait\<close> as one thread runs it while no other thread touches the
  barrier.  The spin loop and the wait on the condition variable leave the state as
  it is, so either leaves at once or never; never is \<open>None\<close>.\<close>

record HybridBarrier =
  count :: int32
  total :: int32
  yield :: bool

partial_function (option) wait_cv :: "HybridBarrier \<Rightarrow> HybridBarrier option" where
  "wait_cv b = (if count b = 0 then Some b else wait_cv b)"

partial_function (option) wait_spin :: "HybridBarrier \<Rightarrow> HybridBarrier option" where
  "wait_spin b =
     (if \<not> yield b then (if count b = 0 then Some b else wait_spin b)
      else wait_cv b)"

definition wait :: "HybridBarrier \<Rightarrow> HybridBarrier option" where
  "wait b =
     (let b1 = b\<lparr>count := count b + 1\<rparr>
      in if count b1 = total b1
         then (let b2 = b1\<lparr>count := 0\<rparr>
               in Some (if yield b2 then b2\<lparr>yield := False\<rparr> else b2))
         else wait_spin b1)"

section \<open>Invariants of the data model\<close>

text \<open>I1: the registered modules have pairwise distinct ids, all below \<open>nextModuleId\<close>.\<close>

definition I1 :: "('f, 'msg) Engine \<Rightarrow> bool" where
  "I1 s \<longleftrightarrow> distinct (map (\<lambda>a. m_id (moduleAt s a)) (modules s))
        \<and> list_all (\<lambda>a. sint (m_id (moduleAt s a)) < sint (nextModuleId s)) (modules s)"

text \<open>I3: no two entries of the cable list target the same input.\<close>

definition I3 :: "('f, 'msg) Engine \<Rightarrow> bool" where
  "I3 s \<longleftrightarrow> distinct (map (\<lambda>c. (inputModule (cableAt s c), inputId (cableAt s c))) (cables s))"


section \<open>Collaborators that leave parameters alone\<close>

text \<open>The module and cable callbacks are not part of the engine.  A callback is
  \<open>keeps_params\<close> when it writes no parameter value and leaves the smoothing slot's
  module as it is; the hooks are \<open>inert\<close> when every callback is.\<close>

definition keeps_params :: "(('f, 'msg) Engine \<Rightarrow> ('f, 'msg) Engine) \<Rightarrow> bool" where
  "keeps_params f \<longleftrightarrow>
     (\<forall>s. (\<forall>b. params (moduleAt (f s) b) = params (moduleAt s b))
          \<and> smoothModule (f s) = smoothModule s)"

definition inert :: "('f, 'msg) Hooks \<Rightarrow> bool" where
  "inert H \<longleftrightarrow> (\<forall>a. keeps_params (process H a) \<and> keeps_params (portsProcess H a)
                      \<and> keeps_params (cableStep H a))"

section \<open>Concrete data for the examples\<close>

text \<open>Integers stand in for \<open>float\<close> and natural numbers for message buffers.\<close>

definition intOps :: "int FloatOps" where
  "intOps = \<lparr>fadd = (+), fsub = (-), fmul = (*), fdiv = (div), feq = (=),
             fzero = 0, ftwo = 2, fsixty = 60\<rparr>"

definition idleHooks :: "(int, nat) Hooks" where
  "idleHooks = \<lparr>process = (\<lambda>a s. s), portsProcess = (\<lambda>a s. s), cableStep = (\<lambda>a s. s),
                cpuMeter = False, elapsed = (\<lambda>a s. 0)\<rparr>"

definition noExpander :: "nat Expander" where
  "noExpander = \<lparr>e_moduleId = - 1, e_module = None, producerMessage = 7,
                 consumerMessage = 8, messageFlipRequested = False\<rparr>"

definition blankModule :: "(int, nat) Module" where
  "blankModule = \<lparr>m_id = - 1, params = [\<lparr>pvalue = 0\<rparr>, \<lparr>pvalue = 10\<rparr>],
                  inputs = [\<lparr>channels = 1, active = False\<rparr>],
                  outputs = [\<lparr>channels = 1, active = False\<rparr>, \<lparr>channels = 3, active = False\<rparr>],
                  bypass = False, cpuTime = 5,
                  leftExpander = noExpander, rightExpander = noExpander\<rparr>"

definition blankCable :: Cable where
  "blankCable = \<lparr>c_id = - 1, outputModule = None, outputId = 0,
                 inputModule = None, inputId = 0\<rparr>"

definition blankHandle :: ParamHandle where
  "blankHandle = \<lparr>h_moduleId = - 1, h_paramId = 0, h_module = None\<rparr>"

text \<open>The engine as \<open>Engine::Engine\<close> leaves it, over a store of blank objects.\<close>

definition newEngine :: "(int, nat) Engine" where
  "newEngine = \<lparr>modules = [], cables = [], paramHandles = [],
                sampleRate = 44100, sampleTime = 1,
                nextModuleId = 0, nextCableId = 0,
                smoothModule = None, smoothParamId = 0, smoothValue = 0,
                moduleAt = (\<lambda>a. blankModule), cableAt = (\<lambda>a. blankCable),
                handleAt = (\<lambda>a. blankHandle)\<rparr>"

text \<open>Module 3 registered with id 0, its parameter 1 (value 10) smoothed towards 12.\<close>

definition smoothingEngine :: "(int, nat) Engine" where
  "smoothingEngine = newEngine\<lparr>modules := [3], nextModuleId := 1,
     smoothModule := Some 3, smoothParamId := 1, smoothValue := 12,
     moduleAt := (\<lambda>a. blankModule)(3 := blankModule\<lparr>m_id := 0\<rparr>)\<rparr>"

text \<open>Module 3 (id 0) asks for a flip of its left expander's buffers only.\<close>

definition flipEngine :: "(int, nat) Engine" where
  "flipEngine = newEngine\<lparr>modules := [3], nextModuleId := 1,
     moduleAt := (\<lambda>a. blankModule)(3 := blankModule\<lparr>m_id := 0,
        leftExpander := noExpander\<lparr>messageFlipRequested := True\<rparr>\<rparr>)\<rparr>"

text \<open>Modules 3 (id 0) and 4 (id 1); the right expander of module 4 points to module 3,
  handle 5 is bound to module 3, parameter 1 of module 3 is being smoothed.\<close>

definition rackEngine :: "(int, nat) Engine" where
  "rackEngine = newEngine\<lparr>modules := [3, 4], paramHandles := [5], nextModuleId := 2,
     smoothModule := Some 3, smoothParamId := 1, smoothValue := 12,
     moduleAt := (\<lambda>a. blankModule)
       (3 := blankModule\<lparr>m_id := 0\<rparr>,
        4 := blankModule\<lparr>m_id := 1,
               rightExpander := noExpander\<lparr>e_moduleId := 0, e_module := Some 3\<rparr>\<rparr>),
     handleAt := (\<lambda>a. blankHandle)
       (5 := \<lparr>h_moduleId = 0, h_paramId = 1, h_module = Some 3\<rparr>)\<rparr>"


text \<open>Module 3 carries the largest id an \<open>int\<close> can hold and is not registered.\<close>

definition maxIdEngine :: "(int, nat) Engine" where
  "maxIdEngine = newEngine\<lparr>moduleAt := (\<lambda>a. blankModule)(3 := blankModule\<lparr>m_id := 2147483647\<rparr>)\<rparr>"

text \<open>The rack above with handle 6, still blank, registered next to handle 5.\<close>

definition handlesEngine :: "(int, nat) Engine" where
  "handlesEngine = rackEngine\<lparr>paramHandles := [5, 6]\<rparr>"

text \<open>The rack above with cable 8 (id 0) registered, from output 1 of module 3 to
  input 0 of module 4, and four cables not yet added: 9 (no id yet) and 12 (id 5) into
  input 0 of module 3, 10 into the input cable 8 has, 11 with the id cable 8 has.\<close>

definition cableEngine :: "(int, nat) Engine" where
  "cableEngine = rackEngine\<lparr>cables := [8], nextCableId := 1,
     cableAt := (\<lambda>a. blankCable)
       (8 := \<lparr>c_id = 0, outputModule = Some 3, outputId = 1,
              inputModule = Some 4, inputId = 0\<rparr>,
        9 := \<lparr>c_id = - 1, outputModule = Some 4, outputId = 0,
              inputModule = Some 3, inputId = 0\<rparr>,
        10 := \<lparr>c_id = - 1, outputModule = Some 3, outputId = 0,
               inputModule = Some 4, inputId = 0\<rparr>,
        11 := \<lparr>c_id = 0, outputModule = Some 4, outputId = 1,
               inputModule = Some 3, inputId = 0\<rparr>,
        12 := \<lparr>c_id = 5, outputModule = Some 4, outputId = 1,
               inputModule = Some 3, inputId = 0\<rparr>)\<rparr>"

section \<open>Auxiliary notions for the statements\<close>

text \<open>The module the rebinding loop of \<open>updateParamHandle\<close> leaves in the handle: the
  last registered module with the given id.\<close>

definition lastWithId :: "('f, 'msg) Engine \<Rightarrow> int32 \<Rightarrow> addr option" where
  "lastWithId s x = find (\<lambda>a. m_id (moduleAt s a) = x) (rev (modules s))"

text \<open>A handle targets \<open>(moduleId, paramId)\<close>.\<close>

definition targets :: "('f, 'msg) Engine \<Rightarrow> int32 \<Rightarrow> int32 \<Rightarrow> addr \<Rightarrow> bool" where
  "targets s moduleId paramId p \<longleftrightarrow>
     h_moduleId (handleAt s p) = moduleId \<and> h_paramId (handleAt s p) = paramId"

text \<open>Both endpoints of a cable exist: the modules are not \<open>NULL\<close> and the port ids
  index their port vectors.  \<open>same_shape\<close> relates two states with the same cables and
  the same numbers of ports.\<close>

definition cable_ports_ok :: "('f, 'msg) Engine \<Rightarrow> Cable \<Rightarrow> bool" where
  "cable_ports_ok s k \<longleftrightarrow>
     (case outputModule k of None \<Rightarrow> False
      | Some om \<Rightarrow> in_range (outputId k) (outputs (moduleAt s om)))
   \<and> (case inputModule k of None \<Rightarrow> False
      | Some im \<Rightarrow> in_range (inputId k) (inputs (moduleAt s im)))"

definition same_shape :: "('f, 'msg) Engine \<Rightarrow> ('f, 'msg) Engine \<Rightarrow> bool" where
  "same_shape s s' \<longleftrightarrow>
     cables s' = cables s \<and> cableAt s' = cableAt s \<and> nextCableId s' = nextCableId s
   \<and> (\<forall>b. length (inputs (moduleAt s' b)) = length (inputs (moduleAt s b))
          \<and> length (outputs (moduleAt s' b)) = length (outputs (moduleAt s b)))"

section \<open>The step kernel: smoothing and message flip\<close>

lemma keeps_params_fold:
  "(\<And>x. keeps_params (f x)) \<Longrightarrow> keeps_params (\<lambda>s. fold f xs s)"
  by (induction xs) (auto simp: keeps_params_def)

lemma keeps_params_updModule:
  "(\<And>m. params (g m) = params m) \<Longrightarrow> keeps_params (updModule a g)"
  by (simp add: keeps_params_def updModule_def)

lemma keeps_params_stepModule: "inert H \<Longrightarrow> keeps_params (stepModule F H dt a)"
  by (simp add: inert_def keeps_params_def stepModule_def updModule_def Let_def)

lemma keeps_params_flip: "keeps_params (updModule a flipModule)"
  by (rule keeps_params_updModule) (simp add: flipModule_def)

lemma keeps_params_rest:
  assumes "inert H"
  shows "params (moduleAt (flipMessages (stepCables H (Engine_stepModules F H s))) b) = params (moduleAt s b)"
    and "smoothModule (flipMessages (stepCables H (Engine_stepModules F H s))) = smoothModule s"
proof -
  have 1: "keeps_params (\<lambda>s. fold (stepModule F H dt) xs s)" for dt xs
    using assms by (intro keeps_params_fold keeps_params_stepModule)
  have 2: "keeps_params (\<lambda>s. fold (cableStep H) xs s)" for xs
    using assms by (intro keeps_params_fold) (simp add: inert_def)
  have 3: "keeps_params (\<lambda>s. fold (\<lambda>a. updModule a flipModule) xs s)" for xs :: "addr list"
    by (intro keeps_params_fold keeps_params_flip)
  show "params (moduleAt (flipMessages (stepCables H (Engine_stepModules F H s))) b) = params (moduleAt s b)"
    using 1 2 3 unfolding keeps_params_def flipMessages_def stepCables_def Engine_stepModules_def
    by metis
  show "smoothModule (flipMessages (stepCables H (Engine_stepModules F H s))) = smoothModule s"
    using 1 2 3 unfolding keeps_params_def flipMessages_def stepCables_def Engine_stepModules_def
    by metis
qed

lemma Engine_step_unfold:
  "Engine_step F H s = (case Engine_step_smooth F s of Inl e \<Rightarrow> Inl e
      | Inr s1 \<Rightarrow> Inr (flipMessages (stepCables H (Engine_stepModules F H s1))))"
  by (simp add: Engine_step_def Engine_step_pre_flip_def split: sum.splits)

text \<open>
  C1.  In a state whose smoothing slot names parameter \<open>i\<close> of module \<open>a\<close>, one run of
  the step kernel with collaborators that write no parameter moves the parameter from
  \<open>v\<close> to \<open>v' = v + (smoothValue - v) * 60 * sampleTime\<close>; when \<open>v'\<close> compares equal to
  \<open>v\<close> it stores \<open>smoothValue\<close> instead and clears \<open>smoothModule\<close>.  Every other
  parameter of every module keeps its value.
\<close>

theorem smoothing_step:
  assumes "smoothModule s = Some a"
    and "in_range (smoothParamId s) (params (moduleAt s a))"
    and "inert H"
  shows "\<exists>s'. Engine_step F H s = Inr s' \<and>
     (let i = idx (smoothParamId s);
          v = pvalue (params (moduleAt s a) ! i);
          v' = fadd F v (fmul F (fmul F (fsub F (smoothValue s) v) (fsixty F)) (sampleTime s))
      in (if feq F v v'
          then pvalue (params (moduleAt s' a) ! i) = smoothValue s \<and> smoothModule s' = None
          else pvalue (params (moduleAt s' a) ! i) = v' \<and> smoothModule s' = Some a)
       \<and> (\<forall>b j. (b, j) \<noteq> (a, i) \<longrightarrow>
             pvalue (params (moduleAt s' b) ! j) = pvalue (params (moduleAt s b) ! j))
       \<and> (\<forall>b. length (params (moduleAt s' b)) = length (params (moduleAt s b))))"
proof -
  have r: "idx (smoothParamId s) < length (params (moduleAt s a))"
    using assms(2) by (auto simp: in_range_def idx_def)
  show ?thesis
    using assms(1,2) r keeps_params_rest[OF assms(3)]
    by (auto simp: Engine_step_unfold Engine_step_smooth_def Let_def smoothNewValue_def
        updModule_def setParamValue_def setValue_def nth_list_update)
qed

theorem smoothing_step_witness:
  "smoothModule smoothingEngine = Some 3
   \<and> in_range (smoothParamId smoothingEngine) (params (moduleAt smoothingEngine 3))
   \<and> inert idleHooks
   \<and> (\<exists>s'. Engine_step intOps idleHooks smoothingEngine = Inr s'
          \<and> pvalue (params (moduleAt s' 3) ! 1) = 130 \<and> smoothModule s' = Some 3
          \<and> pvalue (params (moduleAt s' 3) ! 0) = 0)"
proof -
  have h1: "smoothModule smoothingEngine = Some 3"
    by (simp add: smoothingEngine_def newEngine_def)
  have h2: "in_range (smoothParamId smoothingEngine) (params (moduleAt smoothingEngine 3))"
    by (simp add: smoothingEngine_def newEngine_def blankModule_def in_range_def)
  have h3: "inert idleHooks"
    by (simp add: inert_def keeps_params_def idleHooks_def)
  have i: "idx (smoothParamId smoothingEngine) = Suc 0"
    by (simp add: smoothingEngine_def newEngine_def idx_def)
  have v: "pvalue (params (moduleAt smoothingEngine 3) ! Suc 0) = 10"
    by (simp add: smoothingEngine_def newEngine_def blankModule_def)
  have v0: "pvalue (params (moduleAt smoothingEngine 3) ! 0) = 0"
    by (simp add: smoothingEngine_def newEngine_def blankModule_def)
  have t: "smoothValue smoothingEngine = 12" "sampleTime smoothingEngine = 1"
    by (simp_all add: smoothingEngine_def newEngine_def)
  from smoothing_step [OF h1 h2 h3, of intOps]
  obtain s' where s': "Engine_step intOps idleHooks smoothingEngine = Inr s'"
    and p: "pvalue (params (moduleAt s' 3) ! Suc 0) = 130 \<and> smoothModule s' = Some 3"
    and q: "\<forall>b j. (b, j) \<noteq> (3, Suc 0) \<longrightarrow>
       pvalue (params (moduleAt s' b) ! j) = pvalue (params (moduleAt smoothingEngine b) ! j)"
    unfolding Let_def i v t by (auto simp: intOps_def)
  from q have "pvalue (params (moduleAt s' 3) ! 0) = pvalue (params (moduleAt smoothingEngine 3) ! 0)"
    by simp
  with h1 h2 h3 s' p v0 show ?thesis by simp
qed

lemma flipExpander_idem: "flipExpander (flipExpander e) = flipExpander e"
  by (simp add: flipExpander_def)

lemma flipModule_idem: "flipModule (flipModule m) = flipModule m"
  by (simp add: flipModule_def flipExpander_idem)

lemma moduleAt_fold_flip:
  "moduleAt (fold (\<lambda>a. updModule a flipModule) xs s) a =
     (if a \<in> set xs then flipModule (moduleAt s a) else moduleAt s a)"
  by (induction xs arbitrary: s) (auto simp: updModule_def flipModule_idem)

lemma modules_fold_flip:
  "modules (fold (\<lambda>a. updModule a flipModule) xs s) = modules s"
  by (induction xs arbitrary: s) (auto simp: updModule_def)

text \<open>
  C8.  Let \<open>s2\<close> be the state of a step when its flip loop starts.  The step ends in
  the state \<open>s'\<close> where, for each registered module and each of its two expanders:
  if \<open>messageFlipRequested\<close> was set in \<open>s2\<close>, the producer and consumer buffers are
  exchanged and the flag is false; otherwise the expander is as in \<open>s2\<close>.
\<close>

theorem message_flip:
  assumes "Engine_step_pre_flip F H s = Inr s2"
  shows "\<exists>s'. Engine_step F H s = Inr s' \<and> modules s' = modules s2 \<and>
    (\<forall>a \<in> set (modules s2). \<forall>ex \<in> {leftExpander, rightExpander}.
       (if messageFlipRequested (ex (moduleAt s2 a))
        then producerMessage (ex (moduleAt s' a)) = consumerMessage (ex (moduleAt s2 a))
           \<and> consumerMessage (ex (moduleAt s' a)) = producerMessage (ex (moduleAt s2 a))
           \<and> \<not> messageFlipRequested (ex (moduleAt s' a))
        else ex (moduleAt s' a) = ex (moduleAt s2 a)))"
  using assms
  by (auto simp: Engine_step_def flipMessages_def moduleAt_fold_flip modules_fold_flip
      flipModule_def flipExpander_def)

theorem message_flip_witness:
  "Engine_step_pre_flip intOps idleHooks flipEngine = Inr flipEngine
   \<and> (\<exists>s'. Engine_step intOps idleHooks flipEngine = Inr s'
          \<and> producerMessage (leftExpander (moduleAt s' 3)) = 8
          \<and> consumerMessage (leftExpander (moduleAt s' 3)) = 7
          \<and> \<not> messageFlipRequested (leftExpander (moduleAt s' 3))
          \<and> rightExpander (moduleAt s' 3) = noExpander)"
proof -
  have h: "Engine_step_pre_flip intOps idleHooks flipEngine = Inr flipEngine"
    by (simp add: Engine_step_pre_flip_def Engine_step_smooth_def Engine_stepModules_def
        stepCables_def stepModule_def flipEngine_def newEngine_def idleHooks_def
        blankModule_def)
  have m: "modules flipEngine = [3]"
    by (simp add: flipEngine_def newEngine_def)
  have l: "leftExpander (moduleAt flipEngine 3) = noExpander\<lparr>messageFlipRequested := True\<rparr>"
    and r: "rightExpander (moduleAt flipEngine 3) = noExpander"
    by (simp_all add: flipEngine_def newEngine_def blankModule_def)
  from message_flip [OF h]
  obtain s' where s': "Engine_step intOps idleHooks flipEngine = Inr s'"
    and f: "\<forall>a \<in> set (modules flipEngine). \<forall>ex \<in> {leftExpander, rightExpander}.
       (if messageFlipRequested (ex (moduleAt flipEngine a))
        then producerMessage (ex (moduleAt s' a)) = consumerMessage (ex (moduleAt flipEngine a))
           \<and> consumerMessage (ex (moduleAt s' a)) = producerMessage (ex (moduleAt flipEngine a))
           \<and> \<not> messageFlipRequested (ex (moduleAt s' a))
        else ex (moduleAt s' a) = ex (moduleAt flipEngine a))"
    by blast
  from f have "producerMessage (leftExpander (moduleAt s' 3)) = 8
          \<and> consumerMessage (leftExpander (moduleAt s' 3)) = 7
          \<and> \<not> messageFlipRequested (leftExpander (moduleAt s' 3))
          \<and> rightExpander (moduleAt s' 3) = noExpander"
    unfolding m by (simp add: l r noExpander_def)
  with h s' show ?thesis by simp
qed

section \<open>Removing a module\<close>

lemma fold_unbind_fields:
  "moduleAt (fold (unbindHandle a) hs s) = moduleAt s"
  "modules (fold (unbindHandle a) hs s) = modules s"
  "cables (fold (unbindHandle a) hs s) = cables s"
  "cableAt (fold (unbindHandle a) hs s) = cableAt s"
  "paramHandles (fold (unbindHandle a) hs s) = paramHandles s"
  "smoothModule (fold (unbindHandle a) hs s) = smoothModule s"
  "nextModuleId (fold (unbindHandle a) hs s) = nextModuleId s"
  by (induction hs arbitrary: s; simp add: unbindHandle_def updHandle_def)+


lemma clearExpanders_idem: "clearExpanders a (clearExpanders a m) = clearExpanders a m"
  by (simp add: clearExpanders_def clearExpander_def)

lemma fold_clear_fields:
  "handleAt (fold (\<lambda>b. updModule b (clearExpanders a)) ms s) = handleAt s"
  "modules (fold (\<lambda>b. updModule b (clearExpanders a)) ms s) = modules s"
  "cables (fold (\<lambda>b. updModule b (clearExpanders a)) ms s) = cables s"
  "cableAt (fold (\<lambda>b. updModule b (clearExpanders a)) ms s) = cableAt s"
  "paramHandles (fold (\<lambda>b. updModule b (clearExpanders a)) ms s) = paramHandles s"
  "smoothModule (fold (\<lambda>b. updModule b (clearExpanders a)) ms s) = smoothModule s"
  "nextModuleId (fold (\<lambda>b. updModule b (clearExpanders a)) ms s) = nextModuleId s"
  by (induction ms arbitrary: s; simp add: updModule_def)+

lemma fold_clear_moduleAt:
  "moduleAt (fold (\<lambda>b. updModule b (clearExpanders a)) ms s) b =
     (if b \<in> set ms then clearExpanders a (moduleAt s b) else moduleAt s b)"
  by (induction ms arbitrary: s) (auto simp: updModule_def clearExpanders_idem)

lemma removeModule_ok:
  assumes "a \<in> set (modules s)"
    and "\<forall>c \<in> set (cables s). outputModule (cableAt s c) \<noteq> Some a \<and> inputModule (cableAt s c) \<noteq> Some a"
  shows "removeModule (Some a) s = Inr
     ((fold (\<lambda>b. updModule b (clearExpanders a)) (modules s)
        (fold (unbindHandle a) (paramHandles s)
           (if Some a = smoothModule s then s\<lparr>smoothModule := None\<rparr> else s)))
       \<lparr>modules := remove1 a (modules s)\<rparr>)"
proof (cases "smoothModule s = Some a")
  case True
  with assms show ?thesis
    by (simp add: removeModule_def Let_def fold_unbind_fields fold_clear_fields)
next
  case False
  then have "Some a \<noteq> smoothModule s" by auto
  with assms show ?thesis
    by (simp add: removeModule_def Let_def fold_unbind_fields fold_clear_fields)
qed




section \<open>Bypassing a module\<close>

text \<open>
  C7.  For every module \<open>a\<close>, \<open>bypassModule(a, true)\<close> leaves every output of \<open>a\<close> with
  channel count 0, \<open>cpuTime\<close> zero and \<open>bypass\<close> set; \<open>bypassModule(a, false)\<close> after it
  leaves \<open>bypass\<close> false and every output with channel count 1.
\<close>

theorem bypass_roundtrip:
  "\<exists>s1 s2. bypassModule F (Some a) True s = Inr s1
      \<and> bypassModule F (Some a) False s1 = Inr s2
      \<and> map channels (outputs (moduleAt s1 a)) = replicate (length (outputs (moduleAt s a))) 0
      \<and> cpuTime (moduleAt s1 a) = fzero F
      \<and> bypass (moduleAt s1 a)
      \<and> \<not> bypass (moduleAt s2 a)
      \<and> map channels (outputs (moduleAt s2 a)) = replicate (length (outputs (moduleAt s a))) 1"
  by (simp add: bypassModule_def updModule_def Let_def setChannels_def comp_def map_replicate_const)

section \<open>Parameter handles\<close>

text \<open>
  C9.  \<open>addParamHandle(h)\<close> fails an assertion unless \<open>h.moduleId < 0\<close> and \<open>h\<close> is not in
  the handle list; otherwise it returns the state with \<open>h\<close> appended to the handle
  list and nothing else changed, so no handle is rebound.
\<close>

theorem addParamHandle_blank:
  "(addParamHandle h s = Inl AssertFailed \<longleftrightarrow>
      \<not> (sint (h_moduleId (handleAt s h)) < 0 \<and> h \<notin> set (paramHandles s)))
   \<and> (sint (h_moduleId (handleAt s h)) < 0 \<and> h \<notin> set (paramHandles s) \<longrightarrow>
        addParamHandle h s = Inr (s\<lparr>paramHandles := paramHandles s @ [h]\<rparr>))"
  by (simp add: addParamHandle_def)

theorem addParamHandle_blank_witness:
  "sint (h_moduleId (handleAt newEngine 5)) < 0 \<and> 5 \<notin> set (paramHandles newEngine)
   \<and> addParamHandle 5 newEngine = Inr (newEngine\<lparr>paramHandles := [5]\<rparr>)
   \<and> h_module (handleAt (newEngine\<lparr>paramHandles := [5]\<rparr>) 5) = None"
proof -
  have h: "sint (h_moduleId (handleAt newEngine 5)) < 0 \<and> 5 \<notin> set (paramHandles newEngine)"
    by (simp add: newEngine_def blankHandle_def)
  have p: "paramHandles newEngine = []" by (simp add: newEngine_def)
  have "addParamHandle 5 newEngine = Inr (newEngine\<lparr>paramHandles := [5]\<rparr>)"
    using addParamHandle_blank [of 5 newEngine] h by (simp add: p)
  moreover have "h_module (handleAt (newEngine\<lparr>paramHandles := [5]\<rparr>) 5) = None"
    by (simp add: newEngine_def blankHandle_def)
  ultimately show ?thesis using h by blast
qed

section \<open>Smoothed parameters\<close>

lemma snapSmooth_cases:
  assumes "\<forall>a0. smoothModule s = Some a0 \<longrightarrow> (smoothModule s, smoothParamId s) \<noteq> (m, p) \<longrightarrow>
             in_range (smoothParamId s) (params (moduleAt s a0))"
  shows "snapSmooth m p s =
     Inr (case smoothModule s of
            None \<Rightarrow> []
          | Some a0 \<Rightarrow>
              if (smoothModule s, smoothParamId s) = (m, p) then []
              else [updModule a0 (\<lambda>k. k\<lparr>params := (params k)[idx (smoothParamId s) :=
                      (params k ! idx (smoothParamId s))\<lparr>pvalue := smoothValue s\<rparr>]\<rparr>) s])"
  using assms by (auto simp: snapSmooth_def split: option.splits)

text \<open>
  C4.  In a state whose smoothing slot, when it names a parameter other than \<open>(m, p)\<close>,
  names an existing one, \<open>setSmoothParam(m, p, v)\<close> returns normally.  Its writes are, in
  order: the snap of that other parameter to the old \<open>smoothValue\<close> (only then), the
  new \<open>smoothParamId\<close>, the new \<open>smoothValue\<close>, and last \<open>smoothModule\<close>, which keeps
  its old value until that write.  Afterwards the slot is \<open>(m, p, v)\<close>,
  \<open>getSmoothParam(m, p)\<close> returns \<open>v\<close>, and \<open>getSmoothParam\<close> on any other pair is
  \<open>getParam\<close> on that pair: it returns the value stored in that parameter of that
  module (an invalid access for a null module or an index outside the vector).  No
  parameter vector changes its length and no stored value other than the snapped one
  changes.
\<close>

theorem setSmoothParam_installs:
  assumes "\<forall>a0. smoothModule s = Some a0 \<longrightarrow> (smoothModule s, smoothParamId s) \<noteq> (m, p) \<longrightarrow>
             in_range (smoothParamId s) (params (moduleAt s a0))"
  shows "\<exists>pre s3 s'.
       setSmoothParam_writes m p v s = Inr (pre @ [s3, s'])
     \<and> setSmoothParam m p v s = Inr s'
     \<and> s' = s3\<lparr>smoothModule := m\<rparr>
     \<and> smoothModule s3 = smoothModule s \<and> smoothParamId s3 = p \<and> smoothValue s3 = v
     \<and> (\<forall>w \<in> set pre. smoothModule w = smoothModule s)
     \<and> (\<forall>a0. smoothModule s = Some a0 \<and> (smoothModule s, smoothParamId s) \<noteq> (m, p) \<longrightarrow>
           pvalue (params (moduleAt (hd pre) a0) ! idx (smoothParamId s)) = smoothValue s
         \<and> smoothParamId (hd pre) = smoothParamId s \<and> smoothValue (hd pre) = smoothValue s
         \<and> pvalue (params (moduleAt s' a0) ! idx (smoothParamId s)) = smoothValue s)
     \<and> (smoothModule s = None \<or> (smoothModule s, smoothParamId s) = (m, p) \<longrightarrow>
           moduleAt s' = moduleAt s)
     \<and> smoothModule s' = m \<and> smoothParamId s' = p \<and> smoothValue s' = v
     \<and> getSmoothParam m p s' = Inr v
     \<and> (\<forall>m2 p2. (m2, p2) \<noteq> (m, p) \<longrightarrow> getSmoothParam m2 p2 s' = getParam m2 p2 s')
     \<and> (\<forall>m2 p2. (m2, p2) \<noteq> (m, p) \<longrightarrow> getSmoothParam m2 p2 s' =
           (case m2 of
              None \<Rightarrow> Inl InvalidAccess
            | Some a2 \<Rightarrow>
                if in_range p2 (params (moduleAt s' a2))
                then Inr (pvalue (params (moduleAt s' a2) ! idx p2))
                else Inl InvalidAccess))
     \<and> (\<forall>b. length (params (moduleAt s' b)) = length (params (moduleAt s b)))
     \<and> (\<forall>b j. \<not> (smoothModule s = Some b \<and> j = idx (smoothParamId s)) \<longrightarrow>
           pvalue (params (moduleAt s' b) ! j) = pvalue (params (moduleAt s b) ! j))"
proof -
  define snapped where "snapped a0 = updModule a0 (\<lambda>k. k\<lparr>params := (params k)[idx (smoothParamId s) :=
                      (params k ! idx (smoothParamId s))\<lparr>pvalue := smoothValue s\<rparr>]\<rparr>) s" for a0
  define pre where "pre = (case smoothModule s of
            None \<Rightarrow> []
          | Some a0 \<Rightarrow> if (smoothModule s, smoothParamId s) = (m, p) then [] else [snapped a0])"
  define s1 where "s1 = last (s # pre)"
  have s1in: "s1 \<in> set (s # pre)"
    unfolding s1_def by (rule last_in_set) simp
  define s3 where "s3 = s1\<lparr>smoothParamId := p, smoothValue := v\<rparr>"
  have sn: "snapSmooth m p s = Inr pre"
    unfolding pre_def snapped_def by (rule snapSmooth_cases [OF assms])
  have w: "setSmoothParam_writes m p v s
             = Inr (pre @ [s1\<lparr>smoothParamId := p\<rparr>, s3, s3\<lparr>smoothModule := m\<rparr>])"
    by (simp add: setSmoothParam_writes_def sn Let_def s3_def s1_def)
  have r: "setSmoothParam m p v s = Inr (s3\<lparr>smoothModule := m\<rparr>)"
    by (simp add: setSmoothParam_def w)
  have sm: "smoothModule w = smoothModule s" if "w \<in> set (s # pre)" for w
    using that by (auto simp: pre_def snapped_def updModule_def split: option.splits if_splits)
  have sm3: "smoothModule s3 = smoothModule s"
    unfolding s3_def using sm [of s1] s1in by simp
  have snap: "pvalue (params (moduleAt (hd (pre @ [x])) a0) ! idx (smoothParamId s)) = smoothValue s
         \<and> smoothParamId (hd (pre @ [x])) = smoothParamId s
         \<and> smoothValue (hd (pre @ [x])) = smoothValue s
         \<and> pvalue (params (moduleAt (s3\<lparr>smoothModule := m\<rparr>) a0) ! idx (smoothParamId s)) = smoothValue s"
    if "smoothModule s = Some a0" "(smoothModule s, smoothParamId s) \<noteq> (m, p)" for a0 x
  proof -
    from that assms have "in_range (smoothParamId s) (params (moduleAt s a0))" by blast
    then have "idx (smoothParamId s) < length (params (moduleAt s a0))"
      by (auto simp: in_range_def idx_def)
    with that show ?thesis
      by (auto simp: pre_def s3_def s1_def snapped_def updModule_def)
  qed
  have nosnap: "moduleAt (s3\<lparr>smoothModule := m\<rparr>) = moduleAt s"
    if "smoothModule s = None \<or> (smoothModule s, smoothParamId s) = (m, p)"
    using that by (auto simp: pre_def s3_def s1_def split: option.splits)
  have g: "getSmoothParam m p (s3\<lparr>smoothModule := m\<rparr>) = Inr v"
    by (simp add: getSmoothParam_def s3_def)
  have g2: "getSmoothParam m2 p2 (s3\<lparr>smoothModule := m\<rparr>) = getParam m2 p2 (s3\<lparr>smoothModule := m\<rparr>)"
    if "(m2, p2) \<noteq> (m, p)" for m2 p2
    using that by (auto simp: getSmoothParam_def s3_def)
  define pre' where "pre' = pre @ [s1\<lparr>smoothParamId := p\<rparr>]"
  define s' where "s' = s3\<lparr>smoothModule := m\<rparr>"
  have c1: "setSmoothParam_writes m p v s = Inr (pre' @ [s3, s'])"
    by (simp add: w pre'_def s'_def)
  have c2: "setSmoothParam m p v s = Inr s'"
    by (simp add: r s'_def)
  have c3: "s' = s3\<lparr>smoothModule := m\<rparr>"
    by (rule s'_def)
  have c4: "smoothParamId s3 = p" "smoothValue s3 = v"
    by (simp_all add: s3_def)
  have c5: "\<forall>w \<in> set pre'. smoothModule w = smoothModule s"
  proof
    fix w assume "w \<in> set pre'"
    then have "w \<in> set pre \<or> w = s1\<lparr>smoothParamId := p\<rparr>"
      unfolding pre'_def by (simp only: set_append set_simps Un_iff insert_iff empty_iff) blast
    then show "smoothModule w = smoothModule s"
    proof
      assume "w \<in> set pre" then show ?thesis using sm [of w] by simp
    next
      assume "w = s1\<lparr>smoothParamId := p\<rparr>"
      then have "smoothModule w = smoothModule s1" by simp
      also have "\<dots> = smoothModule s"
        using sm [of s1] s1in by simp
      finally show ?thesis .
    qed
  qed
  have c6: "\<forall>a0. smoothModule s = Some a0 \<and> (smoothModule s, smoothParamId s) \<noteq> (m, p) \<longrightarrow>
           pvalue (params (moduleAt (hd pre') a0) ! idx (smoothParamId s)) = smoothValue s
         \<and> smoothParamId (hd pre') = smoothParamId s \<and> smoothValue (hd pre') = smoothValue s
         \<and> pvalue (params (moduleAt s' a0) ! idx (smoothParamId s)) = smoothValue s"
    unfolding pre'_def s'_def using snap by (intro allI impI) (elim conjE, assumption)
  have c7: "smoothModule s = None \<or> (smoothModule s, smoothParamId s) = (m, p) \<longrightarrow>
           moduleAt s' = moduleAt s"
    unfolding s'_def using nosnap by (intro impI)
  have c8: "smoothModule s' = m" "smoothParamId s' = p" "smoothValue s' = v"
    by (simp_all add: s'_def s3_def)
  have c9: "getSmoothParam m p s' = Inr v"
    unfolding s'_def by (rule g)
  have c10: "\<forall>m2 p2. (m2, p2) \<noteq> (m, p) \<longrightarrow> getSmoothParam m2 p2 s' = getParam m2 p2 s'"
    unfolding s'_def using g2 by (intro allI impI)
  have c11: "\<forall>m2 p2. (m2, p2) \<noteq> (m, p) \<longrightarrow> getSmoothParam m2 p2 s' =
           (case m2 of
              None \<Rightarrow> Inl InvalidAccess
            | Some a2 \<Rightarrow>
                if in_range p2 (params (moduleAt s' a2))
                then Inr (pvalue (params (moduleAt s' a2) ! idx p2))
                else Inl InvalidAccess)"
  proof (intro allI impI)
    fix m2 p2 assume "(m2, p2) \<noteq> (m, p)"
    with c10 have "getSmoothParam m2 p2 s' = getParam m2 p2 s'" by blast
    then show "getSmoothParam m2 p2 s' =
           (case m2 of
              None \<Rightarrow> Inl InvalidAccess
            | Some a2 \<Rightarrow>
                if in_range p2 (params (moduleAt s' a2))
                then Inr (pvalue (params (moduleAt s' a2) ! idx p2))
                else Inl InvalidAccess)"
      by (simp add: getParam_def split: option.splits)
  qed
  have ms': "moduleAt s' = moduleAt s1"
    by (simp add: s'_def s3_def)
  have s1cases: "s1 = s \<or> (\<exists>a0. smoothModule s = Some a0 \<and> s1 = snapped a0)"
    unfolding s1_def pre_def by (simp split: option.splits)
  have c12: "\<forall>b. length (params (moduleAt s' b)) = length (params (moduleAt s b))"
    unfolding ms' using s1cases by (auto simp: snapped_def updModule_def)
  have c13: "\<forall>b j. \<not> (smoothModule s = Some b \<and> j = idx (smoothParamId s)) \<longrightarrow>
           pvalue (params (moduleAt s' b) ! j) = pvalue (params (moduleAt s b) ! j)"
    unfolding ms' using s1cases by (auto simp: snapped_def updModule_def nth_list_update)
  show ?thesis
    apply (rule exI [of _ pre'])
    apply (rule exI [of _ s3])
    apply (rule exI [of _ s'])
    apply (intro conjI)
    apply (fact c1 c2 c3 sm3 c4 c5 c6 c7 c8 c9 c10 c11 c12 c13)+
    done
qed

theorem setSmoothParam_installs_witness:
  "smoothModule smoothingEngine = Some 3 \<and> smoothParamId smoothingEngine = 1
   \<and> smoothValue smoothingEngine = 12
   \<and> in_range (smoothParamId smoothingEngine) (params (moduleAt smoothingEngine 3))
   \<and> pvalue (params (moduleAt smoothingEngine 3) ! 1) = 10
   \<and> (\<exists>s'. setSmoothParam (Some 3) 0 5 smoothingEngine = Inr s'
          \<and> pvalue (params (moduleAt s' 3) ! 1) = 12
          \<and> pvalue (params (moduleAt s' 3) ! 0) = 0
          \<and> smoothModule s' = Some 3 \<and> smoothParamId s' = 0 \<and> smoothValue s' = 5
          \<and> getSmoothParam (Some 3) 0 s' = Inr 5
          \<and> getSmoothParam (Some 3) 1 s' = Inr 12
          \<and> getSmoothParam (Some 4) 1 s' = Inr 10
          \<and> getSmoothParam (Some 3) 2 s' = Inl InvalidAccess
          \<and> getSmoothParam None 1 s' = Inl InvalidAccess)"
proof -
  have a: "smoothModule smoothingEngine = Some 3" "smoothParamId smoothingEngine = 1"
    "smoothValue smoothingEngine = 12"
    by (simp_all add: smoothingEngine_def newEngine_def)
  have r: "in_range (smoothParamId smoothingEngine) (params (moduleAt smoothingEngine 3))"
    by (simp add: smoothingEngine_def newEngine_def blankModule_def in_range_def)
  have old: "pvalue (params (moduleAt smoothingEngine 3) ! 1) = 10"
    "pvalue (params (moduleAt smoothingEngine 3) ! 0) = 0"
    "pvalue (params (moduleAt smoothingEngine 4) ! 1) = 10"
    "length (params (moduleAt smoothingEngine 3)) = 2"
    "length (params (moduleAt smoothingEngine 4)) = 2"
    by (simp_all add: smoothingEngine_def newEngine_def blankModule_def)
  have h: "\<forall>a0. smoothModule smoothingEngine = Some a0 \<longrightarrow>
             (smoothModule smoothingEngine, smoothParamId smoothingEngine) \<noteq> (Some 3, 0) \<longrightarrow>
             in_range (smoothParamId smoothingEngine) (params (moduleAt smoothingEngine a0))"
    using r by (simp add: a)
  have i: "idx 1 = 1" "idx 0 = 0" by (simp_all add: idx_def)
  have rg: "in_range (1 :: int32) xs \<longleftrightarrow> 1 < length xs"
    "in_range (2 :: int32) xs \<longleftrightarrow> 2 < length xs" for xs :: "int Param list"
    by (auto simp: in_range_def)
  from setSmoothParam_installs [OF h, of 5]
  obtain pre s3 s' where
    w: "setSmoothParam_writes (Some 3) 0 5 smoothingEngine = Inr (pre @ [s3, s'])"
    and s': "setSmoothParam (Some 3) 0 5 smoothingEngine = Inr s'"
    and snap: "\<forall>a0. smoothModule smoothingEngine = Some a0
          \<and> (smoothModule smoothingEngine, smoothParamId smoothingEngine) \<noteq> (Some 3, 0) \<longrightarrow>
          pvalue (params (moduleAt (hd pre) a0) ! idx (smoothParamId smoothingEngine))
            = smoothValue smoothingEngine
        \<and> smoothParamId (hd pre) = smoothParamId smoothingEngine
        \<and> smoothValue (hd pre) = smoothValue smoothingEngine
        \<and> pvalue (params (moduleAt s' a0) ! idx (smoothParamId smoothingEngine))
            = smoothValue smoothingEngine"
    and slot: "smoothModule s' = Some 3" "smoothParamId s' = 0" "smoothValue s' = 5"
    and g: "getSmoothParam (Some 3) 0 s' = Inr 5"
    and live: "\<forall>m2 p2. (m2, p2) \<noteq> (Some 3, 0) \<longrightarrow> getSmoothParam m2 p2 s' =
           (case m2 of
              None \<Rightarrow> Inl InvalidAccess
            | Some a2 \<Rightarrow>
                if in_range p2 (params (moduleAt s' a2))
                then Inr (pvalue (params (moduleAt s' a2) ! idx p2))
                else Inl InvalidAccess)"
    and len: "\<forall>b. length (params (moduleAt s' b)) = length (params (moduleAt smoothingEngine b))"
    and keep: "\<forall>b j. \<not> (smoothModule smoothingEngine = Some b \<and> j = idx (smoothParamId smoothingEngine)) \<longrightarrow>
           pvalue (params (moduleAt s' b) ! j) = pvalue (params (moduleAt smoothingEngine b) ! j)"
    by (elim exE conjE) (rule that, assumption+)
  have v1: "pvalue (params (moduleAt s' 3) ! 1) = 12"
    using snap a i by simp
  have v0: "pvalue (params (moduleAt s' 3) ! 0) = 0"
    using keep a i old by simp
  have v4: "pvalue (params (moduleAt s' 4) ! 1) = 10"
    using keep a i old by simp
  have l: "length (params (moduleAt s' 3)) = 2" "length (params (moduleAt s' 4)) = 2"
    using len old by simp_all
  have "getSmoothParam (Some 3) 1 s' =
      (if in_range 1 (params (moduleAt s' 3))
       then Inr (pvalue (params (moduleAt s' 3) ! idx 1)) else Inl InvalidAccess)"
    using live by simp
  then have g1: "getSmoothParam (Some 3) 1 s' = Inr 12"
    using rg l i v1 by simp
  have "getSmoothParam (Some 4) 1 s' =
      (if in_range 1 (params (moduleAt s' 4))
       then Inr (pvalue (params (moduleAt s' 4) ! idx 1)) else Inl InvalidAccess)"
    using live by simp
  then have g4: "getSmoothParam (Some 4) 1 s' = Inr 10"
    using rg l i v4 by simp
  have "getSmoothParam (Some 3) 2 s' =
      (if in_range 2 (params (moduleAt s' 3))
       then Inr (pvalue (params (moduleAt s' 3) ! idx 2)) else Inl InvalidAccess)"
    using live by simp
  then have g2: "getSmoothParam (Some 3) 2 s' = Inl InvalidAccess"
    using rg l by simp
  have gn: "getSmoothParam None 1 s' = Inl InvalidAccess"
    using live by simp
  from s' v1 v0 slot g g1 g4 g2 gn
  have "\<exists>s'. setSmoothParam (Some 3) 0 5 smoothingEngine = Inr s'
          \<and> pvalue (params (moduleAt s' 3) ! 1) = 12
          \<and> pvalue (params (moduleAt s' 3) ! 0) = 0
          \<and> smoothModule s' = Some 3 \<and> smoothParamId s' = 0 \<and> smoothValue s' = 5
          \<and> getSmoothParam (Some 3) 0 s' = Inr 5
          \<and> getSmoothParam (Some 3) 1 s' = Inr 12
          \<and> getSmoothParam (Some 4) 1 s' = Inr 10
          \<and> getSmoothParam (Some 3) 2 s' = Inl InvalidAccess
          \<and> getSmoothParam None 1 s' = Inl InvalidAccess"
    by (intro exI [of _ s'] conjI)
  with a r old(1) show ?thesis
    by (intro conjI)
qed

section \<open>The hybrid barrier with one party\<close>

lemma wait_cv_stuck: "count b \<noteq> 0 \<Longrightarrow> wait_cv b = None"
proof (rule ccontr)
  assume c: "count b \<noteq> 0" and "wait_cv b \<noteq> None"
  then obtain y where y: "wait_cv b = Some y" by auto
  have "count b = 0"
    by (rule wait_cv.raw_induct [where P = "\<lambda>x y. count x = 0", OF _ y])
       (auto split: if_splits)
  with c show False by simp
qed

lemma wait_cv_returns: "wait_cv b = Some y \<Longrightarrow> count b = 0"
  using wait_cv_stuck [of b] by (cases "count b = 0") simp_all

lemma wait_spin_stuck: "count b \<noteq> 0 \<Longrightarrow> wait_spin b = None"
proof (rule ccontr)
  assume c: "count b \<noteq> 0" and "wait_spin b \<noteq> None"
  then obtain y where y: "wait_spin b = Some y" by auto
  have "count b = 0"
    by (rule wait_spin.raw_induct [where P = "\<lambda>x y. count x = 0", OF _ y])
       (auto dest: wait_cv_returns split: if_splits)
  with c show False by simp
qed

text \<open>With \<open>total = 0\<close> the incremented count never equals \<open>total\<close> and nobody resets
  it: the call does not return.\<close>

lemma wait_total_zero_never_returns:
  "wait \<lparr>count = 0, total = 0, yield = y\<rparr> = None"
  by (simp add: wait_def wait_spin_stuck)

text \<open>
  C6, as the code has it.  On a barrier with \<open>total = 1\<close> on which no thread waits
  (\<open>count = 0\<close>), \<open>wait()\<close> returns at once; \<open>count\<close> and \<open>total\<close> are as before and
  \<open>yield\<close> is false afterwards.
\<close>

theorem wait_single_thread:
  "total b = 1 \<Longrightarrow> count b = 0 \<Longrightarrow> wait b = Some (b\<lparr>yield := False\<rparr>)"
  by (cases "yield b") (simp_all add: wait_def)

theorem wait_single_thread_witness:
  "total \<lparr>count = 0, total = 1, yield = False\<rparr> = 1
   \<and> count \<lparr>count = 0, total = 1, yield = False\<rparr> = 0
   \<and> wait \<lparr>count = 0, total = 1, yield = False\<rparr> = Some \<lparr>count = 0, total = 1, yield = False\<rparr>"
  using wait_single_thread [of "\<lparr>count = 0, total = 1, yield = False\<rparr>"] by simp

text \<open>With \<open>total = 1\<close> and a yield request pending, \<open>wait()\<close> consumes the request:
  the barrier's state is not left as it was.\<close>

theorem wait_clears_yield:
  "sint (total \<lparr>count = 0, total = 1, yield = True\<rparr>) \<le> 1
   \<and> wait \<lparr>count = 0, total = 1, yield = True\<rparr> = Some \<lparr>count = 0, total = 1, yield = False\<rparr>
   \<and> \<lparr>count = 0, total = 1, yield = False\<rparr> \<noteq> \<lparr>count = 0, total = 1, yield = True\<rparr>"
  by (simp add: wait_def)

section \<open>Updating a parameter handle\<close>

lemma reset_idem: "reset (reset x) = reset x"
  by (simp add: reset_def)

lemma fold_resetConflict_fields:
  "moduleAt (fold (resetConflict h mid pid ow) ps s) = moduleAt s"
  "modules (fold (resetConflict h mid pid ow) ps s) = modules s"
  "paramHandles (fold (resetConflict h mid pid ow) ps s) = paramHandles s"
  by (induction ps arbitrary: s; simp add: resetConflict_def updHandle_def)+

lemma fold_resetConflict_overwrite:
  "handleAt (fold (resetConflict h mid pid True) ps s) q =
     (if q \<in> set ps \<and> q \<noteq> h \<and> targets s mid pid q
      then reset (handleAt s q) else handleAt s q)"
proof (induction ps arbitrary: s)
  case Nil
  show ?case by simp
next
  case (Cons p ps)
  show ?case
    by (simp add: Cons.IH) (auto simp: resetConflict_def updHandle_def targets_def reset_idem)
qed

lemma fold_resetConflict_keep:
  "handleAt (fold (resetConflict h mid pid False) ps s) =
     (if \<exists>p \<in> set ps. p \<noteq> h \<and> targets s mid pid p
      then (handleAt s)(h := reset (handleAt s h)) else handleAt s)"
proof (induction ps arbitrary: s)
  case Nil
  show ?case by simp
next
  case (Cons p ps)
  have t: "targets (updHandle h reset s) mid pid q = targets s mid pid q" if "q \<noteq> h" for q
    using that by (simp add: targets_def updHandle_def)
  show ?case
  proof (cases "p \<noteq> h \<and> targets s mid pid p")
    case True
    then have "resetConflict h mid pid False p s = updHandle h reset s"
      by (simp add: resetConflict_def targets_def)
    with True show ?thesis
      by (simp add: Cons.IH) (auto simp: updHandle_def reset_idem t)
  next
    case False
    then have "resetConflict h mid pid False p s = s"
      by (auto simp: resetConflict_def targets_def)
    with False show ?thesis
      by (simp add: Cons.IH) auto
  qed
qed

lemma fold_rebind_fields:
  "moduleAt (fold (rebind h) ms s) = moduleAt s"
  "modules (fold (rebind h) ms s) = modules s"
  "paramHandles (fold (rebind h) ms s) = paramHandles s"
  by (induction ms arbitrary: s; simp add: rebind_def updHandle_def)+

lemma fold_rebind_handleAt:
  "handleAt (fold (rebind h) ms s) =
     (case find (\<lambda>a. m_id (moduleAt s a) = h_moduleId (handleAt s h)) (rev ms) of
        None \<Rightarrow> handleAt s
      | Some a \<Rightarrow> (handleAt s)(h := (handleAt s h)\<lparr>h_module := Some a\<rparr>))"
proof (induction ms rule: rev_induct)
  case Nil
  show ?case by simp
next
  case (snoc x xs)
  define t where "t = fold (rebind h) xs s"
  have m: "moduleAt t = moduleAt s"
    unfolding t_def by (rule fold_rebind_fields)
  have k: "handleAt t =
     (case find (\<lambda>a. m_id (moduleAt s a) = h_moduleId (handleAt s h)) (rev xs) of
        None \<Rightarrow> handleAt s
      | Some a \<Rightarrow> (handleAt s)(h := (handleAt s h)\<lparr>h_module := Some a\<rparr>))"
    unfolding t_def by (rule snoc.IH)
  have f: "fold (rebind h) (xs @ [x]) s = rebind h x t"
    by (simp add: t_def)
  have "handleAt (rebind h x t) =
     (case find (\<lambda>a. m_id (moduleAt s a) = h_moduleId (handleAt s h)) (rev (xs @ [x])) of
        None \<Rightarrow> handleAt s
      | Some a \<Rightarrow> (handleAt s)(h := (handleAt s h)\<lparr>h_module := Some a\<rparr>))"
    by (simp add: rebind_def updHandle_def m k split: option.splits)
  then show ?case
    by (simp only: f)
qed

lemma updateParamHandle_idle:
  assumes "\<not> (h \<in> set (paramHandles s) \<and> 0 \<le> sint mid)"
  shows "updateParamHandle h mid pid ow s =
     updHandle h (\<lambda>p. p\<lparr>h_moduleId := mid, h_paramId := pid, h_module := None\<rparr>) s"
  using assms by (auto simp: updateParamHandle_def Let_def updHandle_def)

lemma updateParamHandle_live:
  assumes "h \<in> set (paramHandles s)" "0 \<le> sint mid"
  shows "updateParamHandle h mid pid ow s =
     fold (rebind h) (modules s)
       (fold (resetConflict h mid pid ow) (paramHandles s)
          (updHandle h (\<lambda>p. p\<lparr>h_moduleId := mid, h_paramId := pid, h_module := None\<rparr>) s))"
  using assms
  by (simp add: updateParamHandle_def Let_def updHandle_def fold_resetConflict_fields)

text \<open>
  C10, as the code has it.  \<open>updateParamHandle(h, mid, pid, overwrite)\<close> first stores
  \<open>mid\<close> and \<open>pid\<close> in \<open>h\<close> and clears \<open>h.module\<close>.  Only when \<open>h\<close> is registered and
  \<open>mid >= 0\<close> (\<open>live\<close>) does it go on: with \<open>overwrite\<close> every other registered handle
  targeting \<open>(mid, pid)\<close> is reset; without \<open>overwrite\<close>, if such a handle exists, \<open>h\<close>
  itself is reset (\<open>dropped\<close>).  Then \<open>h.module\<close> becomes the registered module whose id
  is \<open>h.moduleId\<close> as it then stands: \<open>mid\<close> if \<open>h\<close> was not reset, \<open>-1\<close> if it was.  When
  not \<open>live\<close>, nothing is reset or rebound and \<open>h.module\<close> stays null.  No other handle
  and no module changes.
\<close>

theorem updateParamHandle_effect:
  "let s' = updateParamHandle h mid pid ow s;
       live = (h \<in> set (paramHandles s) \<and> 0 \<le> sint mid);
       conflict = (\<exists>p \<in> set (paramHandles s). p \<noteq> h \<and> targets s mid pid p);
       dropped = (live \<and> \<not> ow \<and> conflict)
   in handleAt s' h =
        (if dropped
         then \<lparr>h_moduleId = - 1, h_paramId = 0, h_module = lastWithId s (- 1)\<rparr>
         else \<lparr>h_moduleId = mid, h_paramId = pid,
               h_module = (if live then lastWithId s mid else None)\<rparr>)
    \<and> (\<forall>p. p \<noteq> h \<longrightarrow> handleAt s' p =
          (if live \<and> ow \<and> p \<in> set (paramHandles s) \<and> targets s mid pid p
           then reset (handleAt s p) else handleAt s p))
    \<and> moduleAt s' = moduleAt s \<and> modules s' = modules s
    \<and> paramHandles s' = paramHandles s"
proof (cases "h \<in> set (paramHandles s) \<and> 0 \<le> sint mid")
  case False
  then show ?thesis
    unfolding Let_def updateParamHandle_idle [OF False]
    by (auto simp: updHandle_def)
next
  case True
  define s1 where
    "s1 = updHandle h (\<lambda>p. p\<lparr>h_moduleId := mid, h_paramId := pid, h_module := None\<rparr>) s"
  define s2 where "s2 = fold (resetConflict h mid pid ow) (paramHandles s) s1"
  have u: "updateParamHandle h mid pid ow s = fold (rebind h) (modules s) s2"
    unfolding s2_def s1_def using True by (simp add: updateParamHandle_live)
  have f1: "moduleAt s1 = moduleAt s" "modules s1 = modules s" "paramHandles s1 = paramHandles s"
    "handleAt s1 h = \<lparr>h_moduleId = mid, h_paramId = pid, h_module = None\<rparr>"
    by (simp_all add: s1_def updHandle_def)
  have o1: "handleAt s1 p = handleAt s p" if "p \<noteq> h" for p
    using that by (simp add: s1_def updHandle_def)
  have t1: "targets s1 mid pid p = targets s mid pid p" if "p \<noteq> h" for p
    using that by (simp add: targets_def o1)
  have f2: "moduleAt s2 = moduleAt s" "modules s2 = modules s" "paramHandles s2 = paramHandles s"
    by (simp_all add: s2_def fold_resetConflict_fields f1)
  define C where "C \<longleftrightarrow> (\<exists>p \<in> set (paramHandles s). p \<noteq> h \<and> targets s mid pid p)"
  have c: "(\<exists>p \<in> set (paramHandles s). p \<noteq> h \<and> targets s1 mid pid p)
       = C"
    unfolding C_def using t1 by blast
  have h2: "handleAt s2 h =
      (if \<not> ow \<and> C
       then \<lparr>h_moduleId = - 1, h_paramId = 0, h_module = None\<rparr>
       else \<lparr>h_moduleId = mid, h_paramId = pid, h_module = None\<rparr>)"
  proof (cases ow)
    case True
    then show ?thesis
      by (simp add: s2_def fold_resetConflict_overwrite f1)
  next
    case False
    have "handleAt (fold (resetConflict h mid pid False) (paramHandles s) s1) =
        (if C
         then (handleAt s1)(h := reset (handleAt s1 h)) else handleAt s1)"
      using fold_resetConflict_keep [of h mid pid "paramHandles s" s1] unfolding c .
    with False have k: "handleAt s2 =
        (if C
         then (handleAt s1)(h := reset (handleAt s1 h)) else handleAt s1)"
      by (simp add: s2_def)
    from False show ?thesis
      by (cases "C")
         (auto simp: k f1 reset_def)
  qed
  have o2: "handleAt s2 p =
      (if ow \<and> p \<in> set (paramHandles s) \<and> targets s mid pid p
       then reset (handleAt s p) else handleAt s p)" if "p \<noteq> h" for p
  proof (cases ow)
    case True
    with that show ?thesis
      by (simp add: s2_def fold_resetConflict_overwrite t1 o1)
  next
    case False
    with that show ?thesis
      by (simp add: s2_def fold_resetConflict_keep o1)
  qed
  have l: "find (\<lambda>a. m_id (moduleAt s2 a) = x) (rev (modules s)) = lastWithId s x" for x
    by (simp add: lastWithId_def f2)
  have h3: "handleAt (fold (rebind h) (modules s) s2) h =
      (if \<not> ow \<and> C
       then \<lparr>h_moduleId = - 1, h_paramId = 0, h_module = lastWithId s (- 1)\<rparr>
       else \<lparr>h_moduleId = mid, h_paramId = pid, h_module = lastWithId s mid\<rparr>)"
    by (simp add: fold_rebind_handleAt h2 l split: option.splits)
  have o3: "handleAt (fold (rebind h) (modules s) s2) p = handleAt s2 p" if "p \<noteq> h" for p
    using that by (simp add: fold_rebind_handleAt split: option.splits)
  show ?thesis
    unfolding Let_def u C_def [symmetric]
    using True by (simp add: h3 o3 o2 fold_rebind_fields f2)
qed

lemma handlesEngine_simps:
  "paramHandles handlesEngine = [5, 6]"
  "modules handlesEngine = [3, 4]"
  "handleAt handlesEngine 5 = \<lparr>h_moduleId = 0, h_paramId = 1, h_module = Some 3\<rparr>"
  "handleAt handlesEngine 6 = blankHandle"
  "m_id (moduleAt handlesEngine 3) = 0"
  "m_id (moduleAt handlesEngine 4) = 1"
  by (simp_all add: handlesEngine_def rackEngine_def newEngine_def)

theorem updateParamHandle_effect_witness:
  "handleAt (updateParamHandle 6 0 1 True handlesEngine) 6
      = \<lparr>h_moduleId = 0, h_paramId = 1, h_module = Some 3\<rparr>
   \<and> handleAt (updateParamHandle 6 0 1 True handlesEngine) 5
      = \<lparr>h_moduleId = - 1, h_paramId = 0, h_module = None\<rparr>"
proof -
  have l: "lastWithId handlesEngine 0 = Some 3"
    by (simp add: lastWithId_def handlesEngine_simps)
  have t: "targets handlesEngine 0 1 5"
    by (simp add: targets_def handlesEngine_simps)
  have n: "(5::nat) \<noteq> 6" by simp
  from updateParamHandle_effect [of 6 0 1 True handlesEngine]
  have a: "handleAt (updateParamHandle 6 0 1 True handlesEngine) 6
             = \<lparr>h_moduleId = 0, h_paramId = 1, h_module = Some 3\<rparr>"
    and b: "\<forall>p. p \<noteq> 6 \<longrightarrow> handleAt (updateParamHandle 6 0 1 True handlesEngine) p =
          (if p \<in> set (paramHandles handlesEngine) \<and> targets handlesEngine 0 1 p
           then reset (handleAt handlesEngine p) else handleAt handlesEngine p)"
    by (simp_all add: Let_def l handlesEngine_simps)
  from b n have "handleAt (updateParamHandle 6 0 1 True handlesEngine) 5
                   = reset (handleAt handlesEngine 5)"
    by (simp add: t handlesEngine_simps)
  with a show ?thesis
    by (simp add: reset_def handlesEngine_simps)
qed

text \<open>Without \<open>overwrite\<close>, a registered handle updated to a target that handle 5
  already has ends up reset and unbound, although module 3 is registered with the
  requested id 0.\<close>

theorem updateParamHandle_incoming_reset:
  "6 \<in> set (paramHandles handlesEngine)
   \<and> 0 \<le> sint (0 :: int32)
   \<and> 3 \<in> set (modules handlesEngine) \<and> m_id (moduleAt handlesEngine 3) = 0
   \<and> handleAt (updateParamHandle 6 0 1 False handlesEngine) 6
        = \<lparr>h_moduleId = - 1, h_paramId = 0, h_module = None\<rparr>"
  by (simp add: updateParamHandle_def Let_def updHandle_def resetConflict_def rebind_def
      reset_def handlesEngine_simps blankHandle_def)

section \<open>Adding a cable\<close>

lemma same_shape_refl: "same_shape s s"
  by (simp add: same_shape_def)

lemma same_shape_trans: "same_shape s t \<Longrightarrow> same_shape t u \<Longrightarrow> same_shape s u"
  by (simp add: same_shape_def)

lemma same_shape_ports_ok: "same_shape s t \<Longrightarrow> cable_ports_ok t k = cable_ports_ok s k"
  by (simp add: same_shape_def cable_ports_ok_def in_range_def split: option.splits)

lemma same_shape_deactivate: "same_shape s (updModule a deactivatePorts s)"
  by (simp add: same_shape_def updModule_def deactivatePorts_def)

lemma same_shape_fold_deactivate:
  "same_shape s (fold (\<lambda>a. updModule a deactivatePorts) ms s)"
proof (induction ms arbitrary: s)
  case Nil
  show ?case by (simp add: same_shape_refl)
next
  case (Cons a ms)
  show ?case
    using same_shape_trans [OF same_shape_deactivate Cons.IH] by simp
qed

lemma activateCable_no_assert: "activateCable c s \<noteq> Inl AssertFailed"
  by (simp add: activateCable_def activateOutput_def activateInput_def
      split: option.splits sum.splits)

lemma activateCable_ok:
  assumes "cable_ports_ok s (cableAt s c)"
  shows "\<exists>s'. activateCable c s = Inr s' \<and> same_shape s s'"
proof -
  from assms obtain om im where
    o: "outputModule (cableAt s c) = Some om"
       "in_range (outputId (cableAt s c)) (outputs (moduleAt s om))"
    and i: "inputModule (cableAt s c) = Some im"
       "in_range (inputId (cableAt s c)) (inputs (moduleAt s im))"
    by (auto simp: cable_ports_ok_def split: option.splits)
  define s1 where "s1 = updModule om (\<lambda>m. m\<lparr>outputs := (outputs m)[idx (outputId (cableAt s c)) :=
                     (outputs m ! idx (outputId (cableAt s c)))\<lparr>active := True\<rparr>]\<rparr>) s"
  have a: "activateOutput c s = Inr s1"
    by (simp add: activateOutput_def o s1_def)
  have sh1: "same_shape s s1"
    by (simp add: same_shape_def s1_def updModule_def)
  have i1: "inputModule (cableAt s1 c) = Some im"
       "in_range (inputId (cableAt s1 c)) (inputs (moduleAt s1 im))"
    using i by (auto simp: s1_def updModule_def in_range_def)
  define s2 where "s2 = updModule im (\<lambda>m. m\<lparr>inputs := (inputs m)[idx (inputId (cableAt s1 c)) :=
                     (inputs m ! idx (inputId (cableAt s1 c)))\<lparr>active := True\<rparr>]\<rparr>) s1"
  have b: "activateInput c s1 = Inr s2"
    by (simp add: activateInput_def i1 s2_def)
  have sh2: "same_shape s1 s2"
    by (simp add: same_shape_def s2_def updModule_def)
  from a b same_shape_trans [OF sh1 sh2] show ?thesis
    by (simp add: activateCable_def)
qed

lemma forEach_activate_no_assert: "forEach activateCable cs s \<noteq> Inl AssertFailed"
proof (induction cs arbitrary: s)
  case Nil
  show ?case by simp
next
  case (Cons c cs)
  show ?case
  proof (cases "activateCable c s")
    case (Inl e)
    with activateCable_no_assert [of c s] show ?thesis by simp
  next
    case (Inr s1)
    with Cons.IH [of s1] show ?thesis by simp
  qed
qed

lemma forEach_activate_ok:
  "list_all (\<lambda>c. cable_ports_ok s (cableAt s c)) cs \<Longrightarrow>
     \<exists>s'. forEach activateCable cs s = Inr s' \<and> same_shape s s'"
proof (induction cs arbitrary: s)
  case Nil
  show ?case by (simp add: same_shape_refl)
next
  case (Cons c cs)
  from Cons.prems have c: "cable_ports_ok s (cableAt s c)"
    and r: "list_all (\<lambda>c. cable_ports_ok s (cableAt s c)) cs"
    by simp_all
  from activateCable_ok [OF c] obtain s1 where
    a: "activateCable c s = Inr s1" and sh: "same_shape s s1"
    by blast
  from sh have "cableAt s1 = cableAt s" by (simp add: same_shape_def)
  with r sh have "list_all (\<lambda>c. cable_ports_ok s1 (cableAt s1 c)) cs"
    by (simp add: same_shape_ports_ok)
  from Cons.IH [OF this] obtain s' where
    "forEach activateCable cs s1 = Inr s'" "same_shape s1 s'"
    by blast
  with a sh show ?case
    by (auto intro: same_shape_trans)
qed

lemma Engine_updateConnected_no_assert: "Engine_updateConnected s \<noteq> Inl AssertFailed"
  by (simp add: Engine_updateConnected_def forEach_activate_no_assert)

lemma Engine_updateConnected_ok:
  assumes "list_all (\<lambda>c. cable_ports_ok s (cableAt s c)) (cables s)"
  shows "\<exists>s'. Engine_updateConnected s = Inr s' \<and> same_shape s s'"
proof -
  define t where "t = fold (\<lambda>a. updModule a deactivatePorts) (modules s) s"
  have sh: "same_shape s t"
    unfolding t_def by (rule same_shape_fold_deactivate)
  then have e: "cableAt t = cableAt s" "cables t = cables s"
    by (simp_all add: same_shape_def)
  with assms sh have "list_all (\<lambda>c. cable_ports_ok t (cableAt t c)) (cables s)"
    by (simp add: same_shape_ports_ok)
  from forEach_activate_ok [OF this] obtain s' where
    "forEach activateCable (cables s) t = Inr s'" "same_shape t s'"
    by blast
  with sh show ?thesis
    by (auto simp: Engine_updateConnected_def t_def [symmetric] intro: same_shape_trans)
qed

lemma addCable_accepted:
  assumes "outputModule (cableAt s c) \<noteq> None" "inputModule (cableAt s c) \<noteq> None"
    "c \<notin> set (cables s)"
    "\<not> (\<exists>c2 \<in> set (cables s). sameInput (cableAt s c2) (cableAt s c))"
    "\<not> (0 \<le> sint (c_id (cableAt s c))
        \<and> (\<exists>w \<in> set (cables s). c_id (cableAt s w) = c_id (cableAt s c)))"
  shows "\<exists>t. addCable (Some c) s = Engine_updateConnected t
      \<and> cables t = cables s @ [c] \<and> moduleAt t = moduleAt s
      \<and> cableAt t = (cableAt s)(c := (cableAt s c)\<lparr>c_id :=
            (if sint (c_id (cableAt s c)) < 0 then nextCableId s else c_id (cableAt s c))\<rparr>)"
proof -
  from assms(1,2) obtain om im where
    e: "outputModule (cableAt s c) = Some om" "inputModule (cableAt s c) = Some im"
    by auto
  from assms(3,4) have
    n: "\<not> (\<exists>c2 \<in> set (cables s). c2 = c \<or> sameInput (cableAt s c2) (cableAt s c))"
    by auto
  show ?thesis
  proof (cases "sint (c_id (cableAt s c)) < 0")
    case True
    define t where "t = s\<lparr>cableAt := (cableAt s)(c := (cableAt s c)\<lparr>c_id := nextCableId s\<rparr>),
          nextCableId := nextCableId s + 1, cables := cables s @ [c]\<rparr>"
    have "addCable (Some c) s = Engine_updateConnected t"
      unfolding addCable_def Let_def t_def using e n True by (simp add: updCable_def)
    moreover have "cables t = cables s @ [c]" "moduleAt t = moduleAt s"
      "cableAt t = (cableAt s)(c := (cableAt s c)\<lparr>c_id := nextCableId s\<rparr>)"
      by (simp_all add: t_def)
    ultimately show ?thesis
      using True by (intro exI [of _ t]) simp
  next
    case False
    with assms(5) have
      m: "\<not> (\<exists>w \<in> set (cables s). c_id (cableAt s c) = c_id (cableAt s w))"
      by auto
    define t where "t = (if sint (nextCableId s) \<le> sint (c_id (cableAt s c))
         then s\<lparr>nextCableId := c_id (cableAt s c) + 1\<rparr> else s)\<lparr>cables := cables s @ [c]\<rparr>"
    have "addCable (Some c) s = Engine_updateConnected t"
      unfolding addCable_def Let_def t_def using e n m False by simp
    moreover have "cables t = cables s @ [c]" "moduleAt t = moduleAt s" "cableAt t = cableAt s"
      by (simp_all add: t_def)
    moreover have "(cableAt s)(c := (cableAt s c)\<lparr>c_id := c_id (cableAt s c)\<rparr>) = cableAt s"
      by simp
    ultimately show ?thesis
      using False by (intro exI [of _ t]) simp
  qed
qed

lemma addCable_rejected:
  assumes "outputModule (cableAt s c) = None \<or> inputModule (cableAt s c) = None
   \<or> c \<in> set (cables s)
   \<or> (\<exists>c2 \<in> set (cables s). sameInput (cableAt s c2) (cableAt s c))
   \<or> (0 \<le> sint (c_id (cableAt s c))
        \<and> (\<exists>w \<in> set (cables s). c_id (cableAt s w) = c_id (cableAt s c)))"
  shows "addCable (Some c) s = Inl AssertFailed"
proof (cases "outputModule (cableAt s c) = None \<or> inputModule (cableAt s c) = None")
  case True
  then show ?thesis
    unfolding addCable_def by (cases "outputModule (cableAt s c) = None") simp_all
next
  case ends: False
  show ?thesis
  proof (cases "\<exists>c2 \<in> set (cables s). c2 = c \<or> sameInput (cableAt s c2) (cableAt s c)")
    case True
    with ends show ?thesis
      unfolding addCable_def by simp
  next
    case False
    then have nc: "c \<notin> set (cables s)"
      "\<not> (\<exists>c2 \<in> set (cables s). sameInput (cableAt s c2) (cableAt s c))"
      by auto
    from assms ends nc have i: "0 \<le> sint (c_id (cableAt s c))"
      and "\<exists>w \<in> set (cables s). c_id (cableAt s w) = c_id (cableAt s c)"
      by blast+
    then obtain w where "w \<in> set (cables s)" "c_id (cableAt s w) = c_id (cableAt s c)"
      by auto
    then have w: "\<exists>w \<in> set (cables s). c_id (cableAt s c) = c_id (cableAt s w)"
      by (intro bexI [of _ w]) simp_all
    from i have "\<not> sint (c_id (cableAt s c)) < 0"
      by simp
    with ends False w show ?thesis
      unfolding addCable_def by simp
  qed
qed

lemma addCable_assert_iff:
  "addCable (Some c) s = Inl AssertFailed \<longleftrightarrow>
     outputModule (cableAt s c) = None \<or> inputModule (cableAt s c) = None
   \<or> c \<in> set (cables s)
   \<or> (\<exists>c2 \<in> set (cables s). sameInput (cableAt s c2) (cableAt s c))
   \<or> (0 \<le> sint (c_id (cableAt s c))
        \<and> (\<exists>w \<in> set (cables s). c_id (cableAt s w) = c_id (cableAt s c)))"
  (is "?l \<longleftrightarrow> ?r")
proof
  assume ?r
  then show ?l by (rule addCable_rejected)
next
  assume l: ?l
  show ?r
  proof (rule ccontr)
    assume "\<not> ?r"
    then have "outputModule (cableAt s c) \<noteq> None" "inputModule (cableAt s c) \<noteq> None"
      "c \<notin> set (cables s)"
      "\<not> (\<exists>c2 \<in> set (cables s). sameInput (cableAt s c2) (cableAt s c))"
      "\<not> (0 \<le> sint (c_id (cableAt s c))
        \<and> (\<exists>w \<in> set (cables s). c_id (cableAt s w) = c_id (cableAt s c)))"
      by simp_all
    from addCable_accepted [OF this] obtain t where
      "addCable (Some c) s = Engine_updateConnected t"
      by blast
    with l Engine_updateConnected_no_assert [of t] show False
      by simp
  qed
qed

text \<open>
  C5.  \<open>addCable(c)\<close> fails an assertion exactly when \<open>c\<close> has a null endpoint, \<open>c\<close> is
  already in the cable list, an existing cable targets the same input, or the id of
  \<open>c\<close> was set by hand (\<open>>= 0\<close>) and an existing cable has it.  Otherwise, all cables'
  endpoints existing, it returns normally with \<open>c\<close> appended, the id of \<open>c\<close> being
  \<open>nextCableId\<close> when it was negative and unchanged when not, no other cable changed,
  and if no two cables targeted the same input before (I3), none do afterwards.
\<close>

theorem addCable_checks:
  fixes s :: "('f, 'msg) Engine" and c :: addr
  defines "rejected \<equiv> outputModule (cableAt s c) = None \<or> inputModule (cableAt s c) = None
     \<or> c \<in> set (cables s)
     \<or> (\<exists>c2 \<in> set (cables s). sameInput (cableAt s c2) (cableAt s c))
     \<or> (0 \<le> sint (c_id (cableAt s c))
          \<and> (\<exists>w \<in> set (cables s). c_id (cableAt s w) = c_id (cableAt s c)))"
  shows "(addCable (Some c) s = Inl AssertFailed \<longleftrightarrow> rejected)
     \<and> (\<not> rejected \<longrightarrow>
          list_all (\<lambda>k. cable_ports_ok s (cableAt s k)) (cables s @ [c]) \<longrightarrow>
          (\<exists>s'. addCable (Some c) s = Inr s'
              \<and> cables s' = cables s @ [c]
              \<and> cableAt s' = (cableAt s)(c := (cableAt s c)\<lparr>c_id :=
                   (if sint (c_id (cableAt s c)) < 0 then nextCableId s
                    else c_id (cableAt s c))\<rparr>)
              \<and> (I3 s \<longrightarrow> I3 s')))"
proof (intro conjI impI)
  show "addCable (Some c) s = Inl AssertFailed \<longleftrightarrow> rejected"
    unfolding rejected_def by (rule addCable_assert_iff)
next
  assume nr: "\<not> rejected"
    and ok: "list_all (\<lambda>k. cable_ports_ok s (cableAt s k)) (cables s @ [c])"
  define newId where
    "newId = (if sint (c_id (cableAt s c)) < 0 then nextCableId s else c_id (cableAt s c))"
  from nr have pre: "outputModule (cableAt s c) \<noteq> None" "inputModule (cableAt s c) \<noteq> None"
    "c \<notin> set (cables s)"
    "\<not> (\<exists>c2 \<in> set (cables s). sameInput (cableAt s c2) (cableAt s c))"
    "\<not> (0 \<le> sint (c_id (cableAt s c))
        \<and> (\<exists>w \<in> set (cables s). c_id (cableAt s w) = c_id (cableAt s c)))"
    unfolding rejected_def by simp_all
  from addCable_accepted [OF pre] obtain t where
    t: "addCable (Some c) s = Engine_updateConnected t"
    "cables t = cables s @ [c]" "moduleAt t = moduleAt s"
    "cableAt t = (cableAt s)(c := (cableAt s c)\<lparr>c_id := newId\<rparr>)"
    unfolding newId_def by blast
  have same: "cable_ports_ok t (cableAt t k) = cable_ports_ok s (cableAt s k)" for k
    by (simp add: cable_ports_ok_def t(3,4) split: option.splits)
  have "list_all (\<lambda>k. cable_ports_ok t (cableAt t k)) (cables t)"
    using ok by (simp add: same t(2))
  from Engine_updateConnected_ok [OF this] obtain s' where
    s': "Engine_updateConnected t = Inr s'" and sh: "same_shape t s'"
    by blast
  from sh t have c1: "cables s' = cables s @ [c]"
    and c2: "cableAt s' = (cableAt s)(c := (cableAt s c)\<lparr>c_id := newId\<rparr>)"
    by (simp_all add: same_shape_def)
  have key: "(inputModule (cableAt s' k), inputId (cableAt s' k))
           = (inputModule (cableAt s k), inputId (cableAt s k))" for k
    by (simp add: c2)
  have c3: "I3 s'" if "I3 s"
  proof -
    have "(inputModule (cableAt s c), inputId (cableAt s c))
           \<notin> set (map (\<lambda>k. (inputModule (cableAt s k), inputId (cableAt s k))) (cables s))"
      using pre(4) by (auto simp: sameInput_def)
    with that show ?thesis
      by (simp add: I3_def c1 key)
  qed
  from t(1) s' c1 c2 c3
  show "\<exists>s'. addCable (Some c) s = Inr s'
              \<and> cables s' = cables s @ [c]
              \<and> cableAt s' = (cableAt s)(c := (cableAt s c)\<lparr>c_id :=
                   (if sint (c_id (cableAt s c)) < 0 then nextCableId s
                    else c_id (cableAt s c))\<rparr>)
              \<and> (I3 s \<longrightarrow> I3 s')"
    unfolding newId_def by simp
qed

lemma cableEngine_simps:
  "cables cableEngine = [8]" "nextCableId cableEngine = 1"
  "cableAt cableEngine 8 = \<lparr>c_id = 0, outputModule = Some 3, outputId = 1,
              inputModule = Some 4, inputId = 0\<rparr>"
  "cableAt cableEngine 9 = \<lparr>c_id = - 1, outputModule = Some 4, outputId = 0,
              inputModule = Some 3, inputId = 0\<rparr>"
  "cableAt cableEngine 10 = \<lparr>c_id = - 1, outputModule = Some 3, outputId = 0,
               inputModule = Some 4, inputId = 0\<rparr>"
  "cableAt cableEngine 11 = \<lparr>c_id = 0, outputModule = Some 4, outputId = 1,
               inputModule = Some 3, inputId = 0\<rparr>"
  "cableAt cableEngine 12 = \<lparr>c_id = 5, outputModule = Some 4, outputId = 1,
               inputModule = Some 3, inputId = 0\<rparr>"
  by (simp_all add: cableEngine_def rackEngine_def newEngine_def)

lemma cableEngine_ports:
  "cable_ports_ok cableEngine (cableAt cableEngine 8)"
  "cable_ports_ok cableEngine (cableAt cableEngine 9)"
  "cable_ports_ok cableEngine (cableAt cableEngine 12)"
  by (simp_all add: cableEngine_simps cable_ports_ok_def in_range_def cableEngine_def
      rackEngine_def newEngine_def blankModule_def)

lemma cableEngine_I3: "I3 cableEngine"
  by (simp add: I3_def cableEngine_simps)

theorem addCable_checks_witness:
  "cables cableEngine = [8] \<and> nextCableId cableEngine = 1 \<and> I3 cableEngine
   \<and> cable_ports_ok cableEngine (cableAt cableEngine 8)
   \<and> cable_ports_ok cableEngine (cableAt cableEngine 9)
   \<and> cable_ports_ok cableEngine (cableAt cableEngine 12)
   \<and> (\<exists>s'. addCable (Some 9) cableEngine = Inr s' \<and> cables s' = [8, 9]
          \<and> c_id (cableAt s' 9) = 1 \<and> c_id (cableAt s' 8) = 0 \<and> I3 s')
   \<and> (\<exists>s'. addCable (Some 12) cableEngine = Inr s' \<and> cables s' = [8, 12]
          \<and> c_id (cableAt s' 12) = 5 \<and> I3 s')
   \<and> addCable (Some 8) cableEngine = Inl AssertFailed
   \<and> sameInput (cableAt cableEngine 8) (cableAt cableEngine 10)
   \<and> addCable (Some 10) cableEngine = Inl AssertFailed
   \<and> inputModule (cableAt cableEngine 8) = Some 4
   \<and> inputModule (cableAt cableEngine 11) = Some 3
   \<and> c_id (cableAt cableEngine 11) = c_id (cableAt cableEngine 8)
   \<and> addCable (Some 11) cableEngine = Inl AssertFailed"
proof -
  note e = cableEngine_simps
  have a9: "\<exists>s'. addCable (Some 9) cableEngine = Inr s' \<and> cables s' = [8, 9]
          \<and> cableAt s' = (cableAt cableEngine)(9 := (cableAt cableEngine 9)\<lparr>c_id := 1\<rparr>)
          \<and> I3 s'"
    using addCable_checks [of 9 cableEngine] cableEngine_ports cableEngine_I3
    by (simp add: e sameInput_def)
  then obtain s9 where s9: "addCable (Some 9) cableEngine = Inr s9" "cables s9 = [8, 9]"
    "cableAt s9 = (cableAt cableEngine)(9 := (cableAt cableEngine 9)\<lparr>c_id := 1\<rparr>)" "I3 s9"
    by (elim exE conjE)
  have c9: "c_id (cableAt s9 9) = 1" "c_id (cableAt s9 8) = 0"
    by (simp_all add: s9(3) e)
  have r9: "\<exists>s'. addCable (Some 9) cableEngine = Inr s' \<and> cables s' = [8, 9]
          \<and> c_id (cableAt s' 9) = 1 \<and> c_id (cableAt s' 8) = 0 \<and> I3 s'"
    using s9 c9 by (intro exI [of _ s9] conjI)
  have a12: "\<exists>s'. addCable (Some 12) cableEngine = Inr s' \<and> cables s' = [8, 12]
          \<and> cableAt s' = (cableAt cableEngine)(12 := (cableAt cableEngine 12)\<lparr>c_id := 5\<rparr>)
          \<and> I3 s'"
    using addCable_checks [of 12 cableEngine] cableEngine_ports cableEngine_I3
    by (simp add: e sameInput_def)
  then obtain s12 where s12: "addCable (Some 12) cableEngine = Inr s12" "cables s12 = [8, 12]"
    "cableAt s12 = (cableAt cableEngine)(12 := (cableAt cableEngine 12)\<lparr>c_id := 5\<rparr>)" "I3 s12"
    by (elim exE conjE)
  have c12: "c_id (cableAt s12 12) = 5"
    by (simp add: s12(3))
  have r12: "\<exists>s'. addCable (Some 12) cableEngine = Inr s' \<and> cables s' = [8, 12]
          \<and> c_id (cableAt s' 12) = 5 \<and> I3 s'"
    using s12 c12 by (intro exI [of _ s12] conjI)
  have r8: "addCable (Some 8) cableEngine = Inl AssertFailed"
    using addCable_checks [of 8 cableEngine] by (simp add: e)
  have si: "sameInput (cableAt cableEngine 8) (cableAt cableEngine 10)"
    by (simp add: sameInput_def e)
  have r10: "addCable (Some 10) cableEngine = Inl AssertFailed"
    using addCable_checks [of 10 cableEngine] by (simp add: e sameInput_def)
  have i11: "inputModule (cableAt cableEngine 8) = Some 4"
    "inputModule (cableAt cableEngine 11) = Some 3"
    "c_id (cableAt cableEngine 11) = c_id (cableAt cableEngine 8)"
    by (simp_all add: e)
  have r11: "addCable (Some 11) cableEngine = Inl AssertFailed"
    using addCable_checks [of 11 cableEngine] by (simp add: e sameInput_def)
  from e(1,2) cableEngine_I3 cableEngine_ports r9 r12 r8 si r10 i11 r11
  show ?thesis by (intro conjI)
qed

section \<open>Module ids\<close>

lemma sint_succ32:
  fixes n :: int32
  assumes "sint n < 2147483647"
  shows "sint (n + 1) = sint n + 1"
proof -
  have "- (2 ^ 31) \<le> sint n" using sint_ge [of n] by simp
  with assms show ?thesis
    by (simp add: sint_word_ariths signed_take_bit_int_eq_self)
qed

lemma fold_bind_fields:
  "moduleAt (fold (bindHandle a) hs s) = moduleAt s"
  "modules (fold (bindHandle a) hs s) = modules s"
  "nextModuleId (fold (bindHandle a) hs s) = nextModuleId s"
  by (induction hs arbitrary: s; simp add: bindHandle_def updHandle_def)+

lemma I1_fold_bind: "I1 (fold (bindHandle a) hs s) = I1 s"
  by (simp add: I1_def fold_bind_fields)

lemma I1_append:
  assumes "I1 s" "a \<notin> set (modules s)"
    and m: "moduleAt s' = (moduleAt s)(a := (moduleAt s a)\<lparr>m_id := i\<rparr>)"
    and l: "modules s' = modules s @ [a]"
    and fresh: "\<forall>b \<in> set (modules s). m_id (moduleAt s b) \<noteq> i"
    and below: "sint i < sint (nextModuleId s')"
    and mono: "sint (nextModuleId s) \<le> sint (nextModuleId s')"
  shows "I1 s'"
proof -
  have old: "m_id (moduleAt s' b) = m_id (moduleAt s b)" if "b \<in> set (modules s)" for b
    using that assms(2) by (auto simp: m)
  then have ids: "map (\<lambda>b. m_id (moduleAt s' b)) (modules s)
                = map (\<lambda>b. m_id (moduleAt s b)) (modules s)"
    by simp
  have new: "m_id (moduleAt s' a) = i"
    by (simp add: m)
  have d: "distinct (map (\<lambda>b. m_id (moduleAt s' b)) (modules s'))"
    using assms(1) fresh by (auto simp: I1_def l ids new)
  have "sint (m_id (moduleAt s' b)) < sint (nextModuleId s')" if "b \<in> set (modules s)" for b
  proof -
    from assms(1) that have "sint (m_id (moduleAt s b)) < sint (nextModuleId s)"
      by (simp add: I1_def list_all_iff)
    with mono old [OF that] show ?thesis by simp
  qed
  with below new have "list_all (\<lambda>b. sint (m_id (moduleAt s' b)) < sint (nextModuleId s')) (modules s')"
    by (simp add: l list_all_iff)
  with d show ?thesis
    by (simp add: I1_def)
qed

lemma addModule_auto:
  assumes "a \<notin> set (modules s)" "sint (m_id (moduleAt s a)) < 0"
  shows "\<exists>s'. addModule (Some a) s = Inr s'
      \<and> moduleAt s' = (moduleAt s)(a := (moduleAt s a)\<lparr>m_id := nextModuleId s\<rparr>)
      \<and> modules s' = modules s @ [a] \<and> nextModuleId s' = nextModuleId s + 1"
  using assms by (simp add: addModule_def Let_def fold_bind_fields updModule_def)

lemma addModule_manual:
  assumes "a \<notin> set (modules s)" "\<not> sint (m_id (moduleAt s a)) < 0"
    "\<forall>b \<in> set (modules s). m_id (moduleAt s b) \<noteq> m_id (moduleAt s a)"
  shows "\<exists>s'. addModule (Some a) s = Inr s'
      \<and> moduleAt s' = moduleAt s
      \<and> modules s' = modules s @ [a]
      \<and> nextModuleId s' = (if sint (nextModuleId s) \<le> sint (m_id (moduleAt s a))
                            then m_id (moduleAt s a) + 1 else nextModuleId s)"
proof -
  from assms(3) have "\<not> (\<exists>b \<in> set (modules s). m_id (moduleAt s a) = m_id (moduleAt s b))"
    by auto
  with assms(1,2) show ?thesis
    by (simp add: addModule_def Let_def fold_bind_fields)
qed

lemma removeModule_I1:
  assumes "I1 s" "removeModule m s = Inr s'"
  shows "I1 s'"
proof -
  from assms(2) obtain a where a: "m = Some a" "a \<in> set (modules s)"
    by (auto simp: removeModule_def Let_def split: option.splits if_splits)
  from assms(2) a have c: "\<forall>c \<in> set (cables s). outputModule (cableAt s c) \<noteq> Some a
                              \<and> inputModule (cableAt s c) \<noteq> Some a"
    by (auto simp: removeModule_def Let_def split: if_splits)
  have ids: "m_id (moduleAt s' b) = m_id (moduleAt s b)" for b
    using assms(2) unfolding a(1) removeModule_ok [OF a(2) c]
    by (auto simp: fold_clear_moduleAt fold_unbind_fields clearExpanders_def)
  have l: "modules s' = remove1 a (modules s)" and n: "nextModuleId s' = nextModuleId s"
    using assms(2) unfolding a(1) removeModule_ok [OF a(2) c]
    by (auto simp: fold_clear_fields fold_unbind_fields)
  have "distinct (map (\<lambda>b. m_id (moduleAt s b)) (remove1 a (modules s)))"
    using assms(1) by (auto simp: I1_def distinct_map intro: inj_on_diff)
  moreover have "list_all (\<lambda>b. sint (m_id (moduleAt s b)) < sint (nextModuleId s)) (remove1 a (modules s))"
    using assms(1) by (auto simp: I1_def list_all_iff dest: notin_set_remove1)
  ultimately show ?thesis
    by (simp add: I1_def ids l n)
qed

text \<open>
  C3, as the code has it.  From a state satisfying I1, with \<open>a\<close> not registered and, if
  its id was set by hand (\<open>>= 0\<close>), no registered module having that id, and with the
  id to be used below the largest \<open>int\<close> (\<open>nextModuleId\<close> when the id of \<open>a\<close> is
  negative, the id of \<open>a\<close> when not): \<open>addModule\<close> returns normally in a state
  satisfying I1; a module with negative id gets \<open>nextModuleId\<close>, which is then
  incremented; otherwise \<open>nextModuleId\<close> becomes the larger of itself and the id plus
  one.  \<open>removeModule\<close>, when it returns, preserves I1.
\<close>

theorem addModule_preserves_I1:
  assumes "I1 s" "a \<notin> set (modules s)"
    and "0 \<le> sint (m_id (moduleAt s a)) \<longrightarrow>
           (\<forall>b \<in> set (modules s). m_id (moduleAt s b) \<noteq> m_id (moduleAt s a))"
    and "(if sint (m_id (moduleAt s a)) < 0 then sint (nextModuleId s)
          else sint (m_id (moduleAt s a))) < 2147483647"
  shows "(\<exists>s'. addModule (Some a) s = Inr s' \<and> I1 s' \<and> modules s' = modules s @ [a]
      \<and> (if sint (m_id (moduleAt s a)) < 0
          then m_id (moduleAt s' a) = nextModuleId s
             \<and> sint (nextModuleId s') = sint (nextModuleId s) + 1
          else m_id (moduleAt s' a) = m_id (moduleAt s a)
             \<and> sint (nextModuleId s')
                 = max (sint (nextModuleId s)) (sint (m_id (moduleAt s a)) + 1)))
     \<and> (\<forall>m s''. removeModule m s = Inr s'' \<longrightarrow> I1 s'')"
proof (intro conjI allI impI)
  fix m s'' assume "removeModule m s = Inr s''"
  with assms(1) show "I1 s''" by (rule removeModule_I1)
next
  show "\<exists>s'. addModule (Some a) s = Inr s' \<and> I1 s' \<and> modules s' = modules s @ [a]
      \<and> (if sint (m_id (moduleAt s a)) < 0
          then m_id (moduleAt s' a) = nextModuleId s
             \<and> sint (nextModuleId s') = sint (nextModuleId s) + 1
          else m_id (moduleAt s' a) = m_id (moduleAt s a)
             \<and> sint (nextModuleId s')
                 = max (sint (nextModuleId s)) (sint (m_id (moduleAt s a)) + 1))"
  proof (cases "sint (m_id (moduleAt s a)) < 0")
    case True
    with assms(4) have b: "sint (nextModuleId s) < 2147483647" by simp
    from addModule_auto [OF assms(2) True] obtain s' where
      r: "addModule (Some a) s = Inr s'"
      and m: "moduleAt s' = (moduleAt s)(a := (moduleAt s a)\<lparr>m_id := nextModuleId s\<rparr>)"
      and l: "modules s' = modules s @ [a]"
      and n: "nextModuleId s' = nextModuleId s + 1"
      by blast
    have sn: "sint (nextModuleId s') = sint (nextModuleId s) + 1"
      unfolding n by (rule sint_succ32 [OF b])
    have fresh: "\<forall>b \<in> set (modules s). m_id (moduleAt s b) \<noteq> nextModuleId s"
      using assms(1) by (auto simp: I1_def list_all_iff)
    have "I1 s'"
      by (rule I1_append [OF assms(1,2) m l fresh]) (simp_all add: sn)
    with r l m sn True show ?thesis by simp
  next
    case False
    with assms(4) have b: "sint (m_id (moduleAt s a)) < 2147483647" by simp
    from False assms(3) have
      fresh: "\<forall>b \<in> set (modules s). m_id (moduleAt s b) \<noteq> m_id (moduleAt s a)"
      by simp
    from addModule_manual [OF assms(2) False fresh] obtain s' where
      r: "addModule (Some a) s = Inr s'"
      and m: "moduleAt s' = moduleAt s"
      and l: "modules s' = modules s @ [a]"
      and n: "nextModuleId s' = (if sint (nextModuleId s) \<le> sint (m_id (moduleAt s a))
                            then m_id (moduleAt s a) + 1 else nextModuleId s)"
      by blast
    have sn: "sint (nextModuleId s') = max (sint (nextModuleId s)) (sint (m_id (moduleAt s a)) + 1)"
      unfolding n using sint_succ32 [OF b] by (simp add: max_def)
    have m': "moduleAt s' = (moduleAt s)(a := (moduleAt s a)\<lparr>m_id := m_id (moduleAt s a)\<rparr>)"
      by (simp add: m)
    have "I1 s'"
      by (rule I1_append [OF assms(1,2) m' l fresh]) (simp_all add: sn)
    with r l m sn False show ?thesis by simp
  qed
qed

theorem addModule_preserves_I1_witness:
  "I1 rackEngine \<and> 7 \<notin> set (modules rackEngine)
   \<and> sint (m_id (moduleAt rackEngine 7)) < 0
   \<and> sint (nextModuleId rackEngine) < 2147483647
   \<and> (\<exists>s'. addModule (Some 7) rackEngine = Inr s' \<and> I1 s' \<and> modules s' = [3, 4, 7]
          \<and> m_id (moduleAt s' 7) = 2 \<and> sint (nextModuleId s') = 3)
   \<and> (\<exists>s''. removeModule (Some 3) rackEngine = Inr s'' \<and> I1 s'')"
proof -
  have h1: "I1 rackEngine"
    by (simp add: I1_def rackEngine_def newEngine_def)
  have h2: "7 \<notin> set (modules rackEngine)"
    by (simp add: rackEngine_def newEngine_def)
  have neg: "sint (m_id (moduleAt rackEngine 7)) < 0"
    by (simp add: rackEngine_def newEngine_def blankModule_def)
  have nx: "nextModuleId rackEngine = 2" "modules rackEngine = [3, 4]"
    by (simp_all add: rackEngine_def newEngine_def)
  have h3: "0 \<le> sint (m_id (moduleAt rackEngine 7)) \<longrightarrow>
           (\<forall>b \<in> set (modules rackEngine). m_id (moduleAt rackEngine b) \<noteq> m_id (moduleAt rackEngine 7))"
    using neg by simp
  have h4: "(if sint (m_id (moduleAt rackEngine 7)) < 0 then sint (nextModuleId rackEngine)
          else sint (m_id (moduleAt rackEngine 7))) < 2147483647"
    using neg by (simp add: nx)
  have c: "\<forall>c \<in> set (cables rackEngine). outputModule (cableAt rackEngine c) \<noteq> Some 3
                              \<and> inputModule (cableAt rackEngine c) \<noteq> Some 3"
    by (simp add: rackEngine_def newEngine_def)
  have "3 \<in> set (modules rackEngine)" by (simp add: nx)
  from removeModule_ok [OF this c] obtain s'' where
    rm: "removeModule (Some 3) rackEngine = Inr s''"
    by blast
  from addModule_preserves_I1 [OF h1 h2 h3 h4] rm
  have "(\<exists>s'. addModule (Some 7) rackEngine = Inr s' \<and> I1 s' \<and> modules s' = [3, 4, 7]
          \<and> m_id (moduleAt s' 7) = 2 \<and> sint (nextModuleId s') = 3)"
    and "I1 s''"
    using neg by (auto simp: nx)
  with h1 h2 neg rm show ?thesis
    by (simp add: nx)
qed

text \<open>Adding a module whose id is the largest \<open>int\<close> wraps \<open>nextModuleId\<close> around to
  the smallest one: I1 holds before and fails afterwards.\<close>

theorem addModule_max_id_breaks_I1:
  "I1 maxIdEngine \<and> 3 \<notin> set (modules maxIdEngine)
   \<and> 0 \<le> sint (m_id (moduleAt maxIdEngine 3))
   \<and> addModule (Some 3) maxIdEngine
        = Inr (maxIdEngine\<lparr>nextModuleId := - 2147483648, modules := [3]\<rparr>)
   \<and> \<not> I1 (maxIdEngine\<lparr>nextModuleId := - 2147483648, modules := [3]\<rparr>)"
  by (simp add: I1_def addModule_def maxIdEngine_def newEngine_def Let_def)

end
